(* ===== verification/Io_Prelude.thy ===== *)
theory Io_Prelude
  imports Main "HOL-Library.Word"
begin

text \<open>
  Shared vocabulary of the development: bytes, the error kinds of \<open>std::io\<close>,
  \<open>io::Result\<close> and the \<open>futures\<close> crate's \<open>Poll\<close>, the slice operations that
  the transports use to copy bytes into a caller's buffer, and the generic list lemmas
  the component theories share. Nothing here is specific to \<open>StreamType\<close>.
\<close>

section \<open>Bytes, results and polls\<close>

type_synonym byte = "8 word"

text \<open>
  \<open>std::io::ErrorKind\<close> as the development needs it: the kinds a socket or a
  secure channel reports (the spec's taxonomy: reset, would-block, other OS failures,
  and secure-channel failures surfaced as ordinary I/O failures).
\<close>

datatype io_error_kind =
    NotFound | PermissionDenied | ConnectionRefused | ConnectionReset
  | ConnectionAborted | NotConnected | AddrInUse | AddrNotAvailable | BrokenPipe
  | AlreadyExists | WouldBlock | InvalidInput | InvalidData | TimedOut | WriteZero
  | Interrupted | Other | UnexpectedEof

text \<open>\<open>io::Result<T>\<close>: \<open>Inl\<close> is \<open>Err\<close>, \<open>Inr\<close> is \<open>Ok\<close>.\<close>

type_synonym 'a io_result = "io_error_kind + 'a"

text \<open>\<open>futures::Async<T>\<close> and \<open>Poll<T, io::Error> = Result<Async<T>, io::Error>\<close>.\<close>

datatype 'a async = Ready 'a | NotReady

type_synonym 'a poll = "io_error_kind + 'a async"

text \<open>
  The byte count a successful read or write reports, 0 for an error: what a caller
  may consider initialised or consumed.
\<close>

fun res_count :: "nat io_result \<Rightarrow> nat" where
  "res_count (Inr n) = n"
| "res_count (Inl _) = 0"

section \<open>Copying into a slice\<close>

text \<open>
  \<open>buf[..n].copy_from_slice(&src[..n])\<close> with \<open>n = min(buf.len(), src.len())\<close>:
  the first \<open>n\<close> bytes of the buffer are overwritten, the rest is left as it was. A
  slice never changes its length.
\<close>

definition copy_prefix :: "byte list \<Rightarrow> byte list \<Rightarrow> byte list" where
  "copy_prefix src buf = take (length buf) src @ drop (length src) buf"

named_theorems buffer_simps "facts about slices and buffers used by the components"

lemma length_copy_prefix [simp, buffer_simps]:
  "length (copy_prefix src buf) = length buf"
  by (simp add: copy_prefix_def)

lemma take_copy_prefix [simp, buffer_simps]:
  "take (min (length buf) (length src)) (copy_prefix src buf) = take (length buf) src"
  by (simp add: copy_prefix_def min_def)

lemma drop_copy_prefix [buffer_simps]:
  "length src \<le> length buf \<Longrightarrow> drop (length src) (copy_prefix src buf) = drop (length src) buf"
  by (simp add: copy_prefix_def)

lemma copy_prefix_short [buffer_simps]:
  "length src \<le> length buf \<Longrightarrow> copy_prefix src buf = src @ drop (length src) buf"
  by (simp add: copy_prefix_def)

lemma copy_prefix_take_indep [buffer_simps]:
  "length b1 = length b2 \<Longrightarrow>
   take (min (length b1) (length src)) (copy_prefix src b1) =
   take (min (length b2) (length src)) (copy_prefix src b2)"
  by (simp add: copy_prefix_def min_def)

lemma take_append_take_prefix [buffer_simps]:
  "n \<le> length xs \<Longrightarrow> take n (xs @ ys) = take n xs"
  by simp


section \<open>Re-wrapping a result\<close>

text \<open>
  A method that forwards to an inner stream returns the inner result with the new inner
  state wrapped again: \<open>case x of (r, s') \<Rightarrow> (r, C s')\<close>. The simplifier turns
  that shape into \<open>apsnd\<close>, which the library's lemmas (\<open>fst_apsnd\<close>,
  \<open>snd_apsnd\<close>) take apart.
\<close>

lemma case_prod_rewrap2 [simp]: "(case x of (a, c) \<Rightarrow> (a, f c)) = apsnd f x"
  by (cases x) simp

lemma case_prod_rewrap3 [simp]: "(case x of (a, b, c) \<Rightarrow> (a, b, f c)) = apsnd (apsnd f) x"
  by (cases x) simp

lemma apsnd_apsnd_eq_iff:
  "inj f \<Longrightarrow> apsnd (apsnd f) x = apsnd (apsnd f) y \<longleftrightarrow> x = y"
  by (cases x; cases y) (auto dest: injD)

lemma apsnd_eq_iff:
  "inj f \<Longrightarrow> apsnd f x = apsnd f y \<longleftrightarrow> x = y"
  by (cases x; cases y) (auto dest: injD)


lemma apsnd3_eq_iff:
  "inj f \<Longrightarrow> apsnd (apsnd (apsnd f)) x = apsnd (apsnd (apsnd f)) y \<longleftrightarrow> x = y"
  by (cases x; cases y) (auto dest: injD)

end
