(* ===== verification/Io_Traits.thy ===== *)
theory Io_Traits
  imports Io_Prelude
begin

text \<open>
  The interface between \<open>StreamType\<close> and the transports it wraps: the four traits
  \<open>io::Read\<close>, \<open>io::Write\<close>, \<open>tokio_io::AsyncRead\<close> and
  \<open>tokio_io::AsyncWrite\<close> as one record of operations over a stream state \<open>'s\<close>
  (a trait implementation is a dictionary of its methods), the \<open>bytes\<close> crate's
  buffers, the \<open>try_nb!\<close> macro and the default methods of \<open>AsyncRead\<close> and
  \<open>AsyncWrite\<close> (tokio-io 0.1). None of this is code of the repository: it is the
  contract the repository's code is written against. The contracts a transport is
  expected to keep are bool-valued predicates on the record; a client of the
  interface assumes them, and each transport model proves them.

  A call sequence of the protocol layer above the interface is an \<open>io_op\<close> list,
  run against any implementation by \<open>run_ops\<close>.
\<close>

section \<open>The bytes crate: BufMut and Buf\<close>

text \<open>
  A growable destination buffer (\<open>BufMut\<close>): the bytes already written, and the spare
  capacity behind them. The spare capacity is uninitialised memory: its bytes are
  arbitrary, and a sound reader never lets them reach \<open>bm_filled\<close>.
\<close>

record buf_mut =
  bm_filled :: "byte list"
  bm_spare :: "byte list"

definition remaining_mut :: "buf_mut \<Rightarrow> nat" where
  "remaining_mut buf = length (bm_spare buf)"

definition has_remaining_mut :: "buf_mut \<Rightarrow> bool" where
  "has_remaining_mut buf \<longleftrightarrow> 0 < remaining_mut buf"

text \<open>\<open>BufMut::advance_mut(cnt)\<close>: the first \<open>cnt\<close> spare bytes become written data.\<close>

definition advance_mut :: "nat \<Rightarrow> buf_mut \<Rightarrow> buf_mut" where
  "advance_mut cnt buf =
     buf\<lparr>bm_filled := bm_filled buf @ take cnt (bm_spare buf), bm_spare := drop cnt (bm_spare buf)\<rparr>"

text \<open>A source buffer (\<open>Buf\<close>, an \<open>io::Cursor\<close> over bytes): the data and a position.\<close>

record buf_cursor =
  bc_data :: "byte list"
  bc_pos :: nat

definition buf_remaining :: "buf_cursor \<Rightarrow> nat" where
  "buf_remaining buf = length (bc_data buf) - bc_pos buf"

definition has_remaining :: "buf_cursor \<Rightarrow> bool" where
  "has_remaining buf \<longleftrightarrow> 0 < buf_remaining buf"

definition buf_bytes :: "buf_cursor \<Rightarrow> byte list" where
  "buf_bytes buf = drop (bc_pos buf) (bc_data buf)"

definition buf_advance :: "nat \<Rightarrow> buf_cursor \<Rightarrow> buf_cursor" where
  "buf_advance cnt buf = buf\<lparr>bc_pos := bc_pos buf + cnt\<rparr>"

text \<open>\<open>Cursor::advance\<close> asserts that the position stays within the data.\<close>

definition cursor_wf :: "buf_cursor \<Rightarrow> bool" where
  "cursor_wf buf \<longleftrightarrow> bc_pos buf \<le> length (bc_data buf)"

section \<open>The traits as a record of methods\<close>

text \<open>
  \<^item> \<open>io_read s buf\<close>: \<open>Read::read(&mut self, buf: &mut [u8]) -> io::Result<usize>\<close>,
    returning the result, the buffer after the call and the stream after the call;
  \<^item> \<open>io_write\<close>, \<open>io_flush\<close>: \<open>Write::write\<close>, \<open>Write::flush\<close>;
  \<^item> \<open>io_prepare_uninitialized_buffer s buf\<close>: \<open>AsyncRead::prepare_uninitialized_buffer
    (&self, buf: &mut [u8]) -> bool\<close>; it takes \<open>&self\<close>, so it returns no new stream;
  \<^item> \<open>io_read_buf\<close>: \<open>AsyncRead::read_buf<B: BufMut>\<close>, at the \<open>buf_mut\<close> model;
  \<^item> \<open>io_shutdown\<close>, \<open>io_write_buf\<close>: \<open>AsyncWrite::shutdown\<close>, \<open>AsyncWrite::write_buf<B: Buf>\<close>.
\<close>

record 's io_impl =
  io_read :: "'s \<Rightarrow> byte list \<Rightarrow> nat io_result \<times> byte list \<times> 's"
  io_write :: "'s \<Rightarrow> byte list \<Rightarrow> nat io_result \<times> 's"
  io_flush :: "'s \<Rightarrow> unit io_result \<times> 's"
  io_prepare_uninitialized_buffer :: "'s \<Rightarrow> byte list \<Rightarrow> bool \<times> byte list"
  io_read_buf :: "'s \<Rightarrow> buf_mut \<Rightarrow> nat poll \<times> buf_mut \<times> 's"
  io_shutdown :: "'s \<Rightarrow> unit poll \<times> 's"
  io_write_buf :: "'s \<Rightarrow> buf_cursor \<Rightarrow> nat poll \<times> buf_cursor \<times> 's"

section \<open>try_nb! and the default methods\<close>

text \<open>
  \<open>try_nb!(e)\<close>: \<open>Ok(t)\<close> continues with \<open>t\<close> (\<open>Inr\<close>); an error of kind
  \<open>WouldBlock\<close> returns \<open>Ok(Async::NotReady)\<close> from the enclosing function, any
  other error returns \<open>Err(e)\<close> (\<open>Inl\<close> of the early return value).
\<close>

fun try_nb :: "'a io_result \<Rightarrow> 'b poll + 'a" where
  "try_nb (Inr t) = Inr t"
| "try_nb (Inl e) = Inl (if e = WouldBlock then Inr NotReady else Inl e)"

text \<open>The default \<open>prepare_uninitialized_buffer\<close> zeroes the buffer and returns true.\<close>

definition default_prepare_uninitialized_buffer :: "byte list \<Rightarrow> bool \<times> byte list" where
  "default_prepare_uninitialized_buffer buf = (True, replicate (length buf) 0)"

text \<open>
  The default \<open>read_buf\<close>: an exhausted buffer gives \<open>Ready(0)\<close>; otherwise the spare
  capacity is handed to \<open>prepare_uninitialized_buffer\<close> (its answer is ignored) and
  then to \<open>read\<close>, and the bytes read are committed with \<open>advance_mut\<close>.
\<close>

definition default_read_buf ::
  "('s \<Rightarrow> byte list \<Rightarrow> nat io_result \<times> byte list \<times> 's) \<Rightarrow> ('s \<Rightarrow> byte list \<Rightarrow> bool \<times> byte list)
   \<Rightarrow> 's \<Rightarrow> buf_mut \<Rightarrow> nat poll \<times> buf_mut \<times> 's" where
  "default_read_buf read prepare s buf =
     (if \<not> has_remaining_mut buf then (Inr (Ready 0), buf, s)
      else
        let b = snd (prepare s (bm_spare buf))
        in case read s b of
             (r, b', s') \<Rightarrow>
               (case try_nb r of
                  Inl p \<Rightarrow> (p, buf\<lparr>bm_spare := b'\<rparr>, s')
                | Inr n \<Rightarrow> (Inr (Ready n), advance_mut n (buf\<lparr>bm_spare := b'\<rparr>), s')))"

text \<open>
  The default \<open>write_buf\<close>: an exhausted source gives \<open>Ready(0)\<close>; otherwise its
  remaining bytes go to \<open>write\<close> and the cursor advances by what was accepted.
\<close>

definition default_write_buf ::
  "('s \<Rightarrow> byte list \<Rightarrow> nat io_result \<times> 's) \<Rightarrow> 's \<Rightarrow> buf_cursor \<Rightarrow> nat poll \<times> buf_cursor \<times> 's" where
  "default_write_buf write s buf =
     (if \<not> has_remaining buf then (Inr (Ready 0), buf, s)
      else
        case write s (buf_bytes buf) of
          (r, s') \<Rightarrow>
            (case try_nb r of
               Inl p \<Rightarrow> (p, buf, s')
             | Inr n \<Rightarrow> (Inr (Ready n), buf_advance n buf, s')))"

text \<open>The default methods over an implementation's own \<open>read\<close>, \<open>prepare\<close> and \<open>write\<close>.\<close>

abbreviation read_buf_of :: "'s io_impl \<Rightarrow> 's \<Rightarrow> buf_mut \<Rightarrow> nat poll \<times> buf_mut \<times> 's" where
  "read_buf_of impl \<equiv> default_read_buf (io_read impl) (io_prepare_uninitialized_buffer impl)"

abbreviation write_buf_of :: "'s io_impl \<Rightarrow> 's \<Rightarrow> buf_cursor \<Rightarrow> nat poll \<times> buf_cursor \<times> 's" where
  "write_buf_of impl \<equiv> default_write_buf (io_write impl)"

section \<open>Contracts of a transport\<close>

text \<open>
  \<open>read\<close> never changes the length of the slice it is given and never reports more
  bytes than the slice holds; \<open>write\<close> never reports more bytes than it was given.
\<close>

definition read_contract :: "'s io_impl \<Rightarrow> bool" where
  "read_contract impl \<longleftrightarrow>
     (\<forall>s b. length (fst (snd (io_read impl s b))) = length b
          \<and> res_count (fst (io_read impl s b)) \<le> length b)"

definition write_contract :: "'s io_impl \<Rightarrow> bool" where
  "write_contract impl \<longleftrightarrow> (\<forall>s b. res_count (fst (io_write impl s b)) \<le> length b)"

text \<open>
  What a caller of \<open>read\<close> observes: the result, the part of the slice the result
  reports as read, and the stream. A read at state \<open>s\<close> on slices of length \<open>n\<close> is
  oblivious when it does not look at the slice's contents: any two slices of that length
  are observed alike.
\<close>

fun read_observe :: "nat io_result \<times> byte list \<times> 's \<Rightarrow> nat io_result \<times> byte list \<times> 's" where
  "read_observe (r, c, s) = (r, take (res_count r) c, s)"

definition read_oblivious :: "'s io_impl \<Rightarrow> 's \<Rightarrow> nat \<Rightarrow> bool" where
  "read_oblivious impl s n \<longleftrightarrow>
     (\<forall>b1 b2. length b1 = n \<longrightarrow> length b2 = n \<longrightarrow>
        read_observe (io_read impl s b1) = read_observe (io_read impl s b2))"

text \<open>
  The contract of \<open>prepare_uninitialized_buffer\<close> (its documentation in tokio-io):
  answering true means the buffer has been zeroed; answering false means the buffer may
  be passed to \<open>read\<close> as it is, which is sound only if \<open>read\<close> never looks at it.
\<close>

definition uninit_sound :: "'s io_impl \<Rightarrow> bool" where
  "uninit_sound impl \<longleftrightarrow>
     (\<forall>s b. if fst (io_prepare_uninitialized_buffer impl s b)
            then snd (io_prepare_uninitialized_buffer impl s b) = replicate (length b) 0
            else length (snd (io_prepare_uninitialized_buffer impl s b)) = length b
                 \<and> read_oblivious impl s (length b))"

text \<open>
  What a caller of \<open>read_buf\<close> observes: the poll, the bytes now written in the buffer,
  the spare capacity left and the stream. Two destination buffers that differ only in
  their uninitialised memory must be observed alike.
\<close>

fun rb_observe :: "nat poll \<times> buf_mut \<times> 's \<Rightarrow> nat poll \<times> byte list \<times> nat \<times> 's" where
  "rb_observe (p, buf, s) = (p, bm_filled buf, length (bm_spare buf), s)"

definition read_buf_safe :: "'s io_impl \<Rightarrow> bool" where
  "read_buf_safe impl \<longleftrightarrow>
     (\<forall>s m1 m2. bm_filled m1 = bm_filled m2 \<longrightarrow> length (bm_spare m1) = length (bm_spare m2) \<longrightarrow>
        rb_observe (io_read_buf impl s m1) = rb_observe (io_read_buf impl s m2))"

text \<open>
  What \<open>read_buf\<close> and \<open>write_buf\<close> promise of the buffer (tokio-io's documentation:
  the count returned is the number of bytes transferred): \<open>read_buf\<close> keeps the
  buffer's capacity and only appends to the written bytes, exactly as many as it reports
  (none when it answers \<open>NotReady\<close> or an error); \<open>write_buf\<close> keeps the source's
  data and advances its cursor exactly by the count it reports, within the data.
\<close>

definition read_buf_contract :: "'s io_impl \<Rightarrow> bool" where
  "read_buf_contract impl \<longleftrightarrow>
     (\<forall>s m. case io_read_buf impl s m of (p, m', s') \<Rightarrow>
        length (bm_filled m') + length (bm_spare m') = length (bm_filled m) + length (bm_spare m)
        \<and> (\<exists>new. bm_filled m' = bm_filled m @ new
                 \<and> length new = (case p of Inr (Ready n) \<Rightarrow> n | _ \<Rightarrow> 0)))"

definition write_buf_contract :: "'s io_impl \<Rightarrow> bool" where
  "write_buf_contract impl \<longleftrightarrow>
     (\<forall>s c. cursor_wf c \<longrightarrow> (case io_write_buf impl s c of (p, c', s') \<Rightarrow>
        cursor_wf c' \<and> bc_data c' = bc_data c
        \<and> bc_pos c' = bc_pos c + (case p of Inr (Ready n) \<Rightarrow> n | _ \<Rightarrow> 0)))"

section \<open>Call sequences of the protocol layer\<close>

text \<open>
  One call of the protocol layer on a stream, and what it observes. \<open>OpRead n\<close> reads
  into a fresh zeroed array of \<open>n\<close> bytes, as safe Rust code does.
\<close>

datatype io_op =
    OpRead nat | OpWrite "byte list" | OpFlush | OpReadBuf buf_mut
  | OpWriteBuf buf_cursor | OpShutdown

datatype io_outcome =
    ORead "nat io_result" "byte list" | OWrite "nat io_result" | OFlush "unit io_result"
  | OReadBuf "nat poll" buf_mut | OWriteBuf "nat poll" buf_cursor | OShutdown "unit poll"

fun exec_op :: "'s io_impl \<Rightarrow> 's \<Rightarrow> io_op \<Rightarrow> io_outcome \<times> 's" where
  "exec_op impl s (OpRead n) =
     (case io_read impl s (replicate n 0) of (r, b, s') \<Rightarrow> (ORead r b, s'))"
| "exec_op impl s (OpWrite b) = (case io_write impl s b of (r, s') \<Rightarrow> (OWrite r, s'))"
| "exec_op impl s OpFlush = (case io_flush impl s of (r, s') \<Rightarrow> (OFlush r, s'))"
| "exec_op impl s (OpReadBuf m) =
     (case io_read_buf impl s m of (p, m', s') \<Rightarrow> (OReadBuf p m', s'))"
| "exec_op impl s (OpWriteBuf c) =
     (case io_write_buf impl s c of (p, c', s') \<Rightarrow> (OWriteBuf p c', s'))"
| "exec_op impl s OpShutdown = (case io_shutdown impl s of (p, s') \<Rightarrow> (OShutdown p, s'))"

fun run_ops :: "'s io_impl \<Rightarrow> 's \<Rightarrow> io_op list \<Rightarrow> io_outcome list \<times> 's" where
  "run_ops impl s [] = ([], s)"
| "run_ops impl s (op # ops) =
     (case exec_op impl s op of
        (out, s') \<Rightarrow> (case run_ops impl s' ops of (outs, s'') \<Rightarrow> (out # outs, s'')))"

section \<open>std's read_to_end\<close>

text \<open>
  Every \<open>io::Read\<close> gets \<open>read_to_end\<close> from std: call \<open>read\<close> on the spare
  capacity of the vector until it returns \<open>Ok(0)\<close>, retrying on \<open>Interrupted\<close> and
  returning any other error with the bytes read so far kept. The loop is
  \<open>partial_function (option)\<close>: \<open>None\<close> is a loop that never returns, which a
  transport that keeps answering \<open>Interrupted\<close> or keeps producing bytes would cause.
  The spare capacity offered to each call is a fixed \<open>chunk\<close> (std grows it, which
  changes the number of calls, not the bytes read). \<open>read_measured impl \<mu> P\<close> is the
  termination argument a transport provides: from states in \<open>P\<close>, a read into a
  non-empty slice stays in \<open>P\<close>, never answers \<open>Interrupted\<close>, and decreases the
  measure \<open>\<mu>\<close> whenever it returns bytes.
\<close>

partial_function (option) read_to_end_loop ::
  "'s io_impl \<Rightarrow> nat \<Rightarrow> nat \<Rightarrow> 's \<Rightarrow> byte list \<Rightarrow> (nat io_result \<times> byte list \<times> 's) option" where
  "read_to_end_loop impl chunk start s acc =
     (case io_read impl s (replicate chunk 0) of
        (Inr n, b, s') \<Rightarrow>
          if n = 0 then Some (Inr (length acc - start), acc, s')
          else read_to_end_loop impl chunk start s' (acc @ take n b)
      | (Inl e, b, s') \<Rightarrow>
          if e = Interrupted then read_to_end_loop impl chunk start s' acc
          else Some (Inl e, acc, s'))"

definition read_to_end ::
  "'s io_impl \<Rightarrow> nat \<Rightarrow> 's \<Rightarrow> byte list \<Rightarrow> (nat io_result \<times> byte list \<times> 's) option" where
  "read_to_end impl chunk s buf = read_to_end_loop impl chunk (length buf) s buf"

definition read_measured :: "'s io_impl \<Rightarrow> ('s \<Rightarrow> nat) \<Rightarrow> ('s \<Rightarrow> bool) \<Rightarrow> bool" where
  "read_measured impl \<mu> P \<longleftrightarrow>
     (\<forall>s buf. P s \<longrightarrow> buf \<noteq> [] \<longrightarrow>
        P (snd (snd (io_read impl s buf)))
        \<and> (case fst (io_read impl s buf) of
             Inr n \<Rightarrow> 0 < n \<longrightarrow> \<mu> (snd (snd (io_read impl s buf))) < \<mu> s
           | Inl e \<Rightarrow> e \<noteq> Interrupted))"

section \<open>Lemmas on the buffers and the default methods\<close>

lemma advance_mut_capacity [buffer_simps]:
  "length (bm_filled (advance_mut n buf)) + length (bm_spare (advance_mut n buf)) =
   length (bm_filled buf) + length (bm_spare buf)"
  by (simp add: advance_mut_def)

lemma advance_mut_filled [buffer_simps]:
  "n \<le> remaining_mut buf \<Longrightarrow>
   length (bm_filled (advance_mut n buf)) = length (bm_filled buf) + n"
  by (simp add: advance_mut_def remaining_mut_def)

lemma cursor_wf_advance [buffer_simps]:
  "cursor_wf buf \<Longrightarrow> n \<le> length (buf_bytes buf) \<Longrightarrow> cursor_wf (buf_advance n buf)"
  by (simp add: cursor_wf_def buf_advance_def buf_bytes_def)

lemma try_nb_Inr_iff [simp]: "try_nb r = Inr n \<longleftrightarrow> r = Inr n"
  by (cases r) auto

lemma try_nb_Inl_iff:
  "try_nb r = Inl p \<longleftrightarrow> (\<exists>e. r = Inl e \<and> p = (if e = WouldBlock then Inr NotReady else Inl e))"
  by (cases r) auto

section \<open>The contracts, unfolded\<close>

lemma read_contractD:
  assumes "read_contract impl" and "io_read impl s b = (r, c, t)"
  shows "length c = length b \<and> res_count r \<le> length b"
  using assms unfolding read_contract_def by (metis fst_conv snd_conv)

lemma uninit_sound_prepare_length:
  assumes "uninit_sound impl"
  shows "length (snd (io_prepare_uninitialized_buffer impl s b)) = length b"
  using assms unfolding uninit_sound_def by (metis length_replicate)

lemma read_obliviousD:
  assumes "read_oblivious impl s n" and "length b1 = n" and "length b2 = n"
  shows "read_observe (io_read impl s b1) = read_observe (io_read impl s b2)"
  using assms unfolding read_oblivious_def by blast

lemma uninit_sound_prepared_read:
  assumes sound: "uninit_sound impl" and len: "length x1 = length x2"
  shows "read_observe (io_read impl s (snd (io_prepare_uninitialized_buffer impl s x1))) =
         read_observe (io_read impl s (snd (io_prepare_uninitialized_buffer impl s x2)))"
proof -
  let ?p1 = "io_prepare_uninitialized_buffer impl s x1"
  let ?p2 = "io_prepare_uninitialized_buffer impl s x2"
  have spec1: "if fst ?p1 then snd ?p1 = replicate (length x1) 0
               else length (snd ?p1) = length x1 \<and> read_oblivious impl s (length x1)"
    using sound unfolding uninit_sound_def by blast
  have spec2: "if fst ?p2 then snd ?p2 = replicate (length x2) 0
               else length (snd ?p2) = length x2 \<and> read_oblivious impl s (length x2)"
    using sound unfolding uninit_sound_def by blast
  have lb: "length (snd ?p1) = length x1" "length (snd ?p2) = length x1"
    using uninit_sound_prepare_length [OF sound] len by simp_all
  show ?thesis
  proof (cases "fst ?p1 \<and> fst ?p2")
    case True
    then have "snd ?p1 = snd ?p2" using spec1 spec2 len by simp
    then show ?thesis by simp
  next
    case False
    then have "read_oblivious impl s (length x1)" using spec1 spec2 len by (auto split: if_splits)
    from read_obliviousD [OF this lb] show ?thesis .
  qed
qed

lemma read_observe_eqD:
  assumes "read_observe (r1, c1, s1) = read_observe (r2, c2, s2)"
  shows "r2 = r1 \<and> s2 = s1 \<and> take (res_count r1) c2 = take (res_count r1) c1"
  using assms by auto

theorem default_read_buf_safe:
  assumes sound: "uninit_sound impl" and rc: "read_contract impl"
    and filled: "bm_filled m1 = bm_filled m2"
    and spare: "length (bm_spare m1) = length (bm_spare m2)"
  shows "rb_observe (read_buf_of impl s m1) = rb_observe (read_buf_of impl s m2)"
proof (cases "has_remaining_mut m1")
  case False
  then have "\<not> has_remaining_mut m2" using spare by (simp add: has_remaining_mut_def remaining_mut_def)
  with False filled spare show ?thesis by (simp add: default_read_buf_def)
next
  case True
  then have rem2: "has_remaining_mut m2" using spare by (simp add: has_remaining_mut_def remaining_mut_def)
  obtain r1 c1 s1 where e1:
    "io_read impl s (snd (io_prepare_uninitialized_buffer impl s (bm_spare m1))) = (r1, c1, s1)"
    using prod_cases3 by blast
  obtain r2 c2 s2 where e2:
    "io_read impl s (snd (io_prepare_uninitialized_buffer impl s (bm_spare m2))) = (r2, c2, s2)"
    using prod_cases3 by blast
  have "read_observe (io_read impl s (snd (io_prepare_uninitialized_buffer impl s (bm_spare m1)))) =
        read_observe (io_read impl s (snd (io_prepare_uninitialized_buffer impl s (bm_spare m2))))"
    by (rule uninit_sound_prepared_read [OF sound spare])
  then have "read_observe (r1, c1, s1) = read_observe (r2, c2, s2)"
    by (simp only: e1 e2)
  then have agree: "r2 = r1 \<and> s2 = s1 \<and> take (res_count r1) c2 = take (res_count r1) c1"
    by (rule read_observe_eqD)
  have l1: "length c1 = length (bm_spare m1)"
    using read_contractD [OF rc e1] uninit_sound_prepare_length [OF sound] by simp
  have l2: "length c2 = length (bm_spare m2)"
    using read_contractD [OF rc e2] uninit_sound_prepare_length [OF sound] by simp
  show ?thesis
  proof (cases r1)
    case (Inl e)
    with agree True rem2 e1 e2 filled l1 l2 spare show ?thesis
      by (simp add: default_read_buf_def)
  next
    case (Inr n)
    with agree True rem2 e1 e2 filled l1 l2 spare show ?thesis
      by (simp add: default_read_buf_def advance_mut_def)
  qed
qed

lemma default_read_buf_capacity:
  assumes rc: "read_contract impl" and sound: "uninit_sound impl"
    and rb: "read_buf_of impl s m = (p, m', s')"
  shows "length (bm_filled m') + length (bm_spare m') = length (bm_filled m) + length (bm_spare m)
       \<and> (\<forall>n. p = Inr (Ready n) \<longrightarrow> n \<le> remaining_mut m \<and> length (bm_filled m') = length (bm_filled m) + n)"
proof (cases "has_remaining_mut m")
  case False
  with rb show ?thesis by (auto simp: default_read_buf_def)
next
  case True
  obtain r c t where e:
    "io_read impl s (snd (io_prepare_uninitialized_buffer impl s (bm_spare m))) = (r, c, t)"
    using prod_cases3 by blast
  have lc: "length c = length (bm_spare m)" and bound: "res_count r \<le> length (bm_spare m)"
    using read_contractD [OF rc e] uninit_sound_prepare_length [OF sound] by simp_all
  show ?thesis
  proof (cases r)
    case (Inl e')
    with True rb e lc show ?thesis by (auto simp: default_read_buf_def split: if_splits)
  next
    case (Inr n)
    with True rb e lc bound show ?thesis
      by (auto simp: default_read_buf_def advance_mut_def remaining_mut_def)
  qed
qed

lemma write_contractD:
  assumes "write_contract impl" and "io_write impl s b = (r, t)"
  shows "res_count r \<le> length b"
  using assms unfolding write_contract_def by (metis fst_conv)

lemma default_write_buf_cursor_wf:
  assumes wc: "write_contract impl" and wf: "cursor_wf c"
    and wb: "write_buf_of impl s c = (p, c', s')"
  shows "cursor_wf c'"
proof (cases "has_remaining c")
  case False
  with wb wf show ?thesis by (simp add: default_write_buf_def)
next
  case True
  obtain r t where e: "io_write impl s (buf_bytes c) = (r, t)" by fastforce
  have "res_count r \<le> length (buf_bytes c)" by (rule write_contractD [OF wc e])
  with True wb wf e show ?thesis
    by (cases r) (auto simp: default_write_buf_def cursor_wf_def buf_advance_def buf_bytes_def)
qed

lemma default_read_buf_contract:
  assumes "io_read_buf impl = read_buf_of impl" and rc: "read_contract impl" and sound: "uninit_sound impl"
  shows "read_buf_contract impl"
  unfolding read_buf_contract_def assms(1)
proof (intro allI)
  fix s m
  show "case read_buf_of impl s m of (p, m', s') \<Rightarrow>
        length (bm_filled m') + length (bm_spare m') = length (bm_filled m) + length (bm_spare m)
        \<and> (\<exists>new. bm_filled m' = bm_filled m @ new \<and> length new = (case p of Inr (Ready n) \<Rightarrow> n | _ \<Rightarrow> 0))"
  proof (cases "has_remaining_mut m")
    case False
    then show ?thesis by (simp add: default_read_buf_def)
  next
    case True
    obtain r c t where e:
      "io_read impl s (snd (io_prepare_uninitialized_buffer impl s (bm_spare m))) = (r, c, t)"
      using prod_cases3 by blast
    have lc: "length c = length (bm_spare m)" and bound: "res_count r \<le> length (bm_spare m)"
      using read_contractD [OF rc e] uninit_sound_prepare_length [OF sound] by simp_all
    show ?thesis
    proof (cases r)
      case (Inl e')
      with True e lc show ?thesis by (auto simp: default_read_buf_def Let_def)
    next
      case (Inr n)
      with True e lc bound show ?thesis
        by (auto simp: default_read_buf_def advance_mut_def Let_def)
    qed
  qed
qed

lemma default_write_buf_contract:
  assumes "io_write_buf impl = write_buf_of impl" and wc: "write_contract impl"
  shows "write_buf_contract impl"
  unfolding write_buf_contract_def assms(1)
proof (intro allI impI)
  fix s c assume wf: "cursor_wf c"
  show "case write_buf_of impl s c of (p, c', s') \<Rightarrow>
        cursor_wf c' \<and> bc_data c' = bc_data c \<and> bc_pos c' = bc_pos c + (case p of Inr (Ready n) \<Rightarrow> n | _ \<Rightarrow> 0)"
  proof (cases "has_remaining c")
    case False
    with wf show ?thesis by (simp add: default_write_buf_def)
  next
    case True
    obtain r t where e: "io_write impl s (buf_bytes c) = (r, t)" by fastforce
    have "res_count r \<le> length (buf_bytes c)" by (rule write_contractD [OF wc e])
    with True wf e show ?thesis
      by (cases r) (auto simp: default_write_buf_def cursor_wf_def buf_advance_def buf_bytes_def)
  qed
qed

lemma rb_observe_apsnd [simp]:
  "rb_observe (apsnd (apsnd f) x) = apsnd (apsnd (apsnd f)) (rb_observe x)"
  by (cases x) (auto split: prod.splits)

lemma read_buf_safeD:
  assumes "read_buf_safe impl" "bm_filled m1 = bm_filled m2" "length (bm_spare m1) = length (bm_spare m2)"
  shows "rb_observe (io_read_buf impl s m1) = rb_observe (io_read_buf impl s m2)"
  using assms unfolding read_buf_safe_def by blast

lemma default_read_buf_is_safe:
  assumes "io_read_buf impl = read_buf_of impl" "uninit_sound impl" "read_contract impl"
  shows "read_buf_safe impl"
  unfolding read_buf_safe_def assms(1) using default_read_buf_safe [OF assms(2,3)] by blast

lemma read_observe_apsnd [simp]:
  "read_observe (apsnd (apsnd f) x) = apsnd (apsnd f) (read_observe x)"
  by (cases x) simp

section \<open>read_to_end returns on a measured transport\<close>

lemma read_to_end_loop_terminates:
  assumes m: "read_measured impl \<mu> P" and "P s" and "0 < chunk"
  shows "\<exists>r. read_to_end_loop impl chunk start s acc = Some r"
  using assms(2)
proof (induction "\<mu> s" arbitrary: s acc rule: less_induct)
  case less
  obtain r b s' where rd: "io_read impl s (replicate chunk 0) = (r, b, s')"
    by (cases "io_read impl s (replicate chunk 0)")
  have buf: "replicate chunk (0 :: byte) \<noteq> []" using assms(3) by simp
  have step: "P s' \<and> (case r of Inr n \<Rightarrow> 0 < n \<longrightarrow> \<mu> s' < \<mu> s | Inl e \<Rightarrow> e \<noteq> Interrupted)"
    using m less.prems buf rd unfolding read_measured_def by (metis fst_conv snd_conv)
  show ?case
  proof (cases r)
    case (Inl e)
    then show ?thesis using step rd by (simp add: read_to_end_loop.simps [of impl chunk start s acc])
  next
    case (Inr n)
    show ?thesis
    proof (cases "n = 0")
      case True
      then show ?thesis using Inr rd by (simp add: read_to_end_loop.simps [of impl chunk start s acc])
    next
      case False
      then have "\<mu> s' < \<mu> s" using step Inr by simp
      then obtain q where "read_to_end_loop impl chunk start s' (acc @ take n b) = Some q"
        using less.hyps step by blast
      then show ?thesis using Inr rd False by (simp add: read_to_end_loop.simps [of impl chunk start s acc]) (metis prod_cases3)
    qed
  qed
qed

end
