(* ===== verification/Stream_Type.thy ===== *)
theory Stream_Type
  imports Io_Traits
begin

text \<open>
  The repository's code, \<open>src/src/stream_type.rs\<close>: the enum \<open>StreamType\<close> over a
  plain \<open>TcpStream\<close> and a \<open>TlsStream<TcpStream>\<close>, its two \<open>From\<close> conversions,
  and its implementations of \<open>io::Read\<close>, \<open>io::Write\<close>, \<open>AsyncRead\<close> and
  \<open>AsyncWrite\<close>. Every method matches on the variant and forwards to the wrapped
  stream's own method; \<open>ref mut stream\<close> mutates the wrapped stream in place, which
  the model writes as taking the inner stream's new state back into the same variant.

  The wrapped stream types are type parameters and their methods the records
  \<open>tcp\<close> and \<open>tls\<close> of \<open>Io_Traits.io_impl\<close>: everything proved here holds for
  any transports, and the transport models of \<open>Tcp_Model\<close> instantiate it.
  \<open>stream_type_impl tcp tls\<close> is \<open>StreamType\<close>'s own method record, so
  \<open>StreamType\<close> is again an implementation of the interface, and what a transport
  promises (an invariant it keeps, a specification it refines) \<open>StreamType\<close> promises
  too (C7). The build without the \<open>tls\<close> feature is modelled beside the full
  one; it behaves as the full build's \<open>Tcp\<close> variant (C14) and keeps the contracts of
  the socket it wraps (C15).
\<close>

section \<open>The enum and its conversions\<close>

datatype ('tcp, 'tls) StreamType = Tcp 'tcp | Tls 'tls

definition from_tcp :: "'tcp \<Rightarrow> ('tcp, 'tls) StreamType" where
  "from_tcp stream = Tcp stream"

definition from_tls :: "'tls \<Rightarrow> ('tcp, 'tls) StreamType" where
  "from_tls stream = Tls stream"

section \<open>The forwarding methods\<close>

fun st_read ::
  "'tcp io_impl \<Rightarrow> 'tls io_impl \<Rightarrow> ('tcp, 'tls) StreamType \<Rightarrow> byte list
   \<Rightarrow> nat io_result \<times> byte list \<times> ('tcp, 'tls) StreamType" where
  "st_read tcp tls (Tcp stream) buf =
     (case io_read tcp stream buf of (r, buf', stream') \<Rightarrow> (r, buf', Tcp stream'))"
| "st_read tcp tls (Tls stream) buf =
     (case io_read tls stream buf of (r, buf', stream') \<Rightarrow> (r, buf', Tls stream'))"

fun st_write ::
  "'tcp io_impl \<Rightarrow> 'tls io_impl \<Rightarrow> ('tcp, 'tls) StreamType \<Rightarrow> byte list
   \<Rightarrow> nat io_result \<times> ('tcp, 'tls) StreamType" where
  "st_write tcp tls (Tcp stream) buf =
     (case io_write tcp stream buf of (r, stream') \<Rightarrow> (r, Tcp stream'))"
| "st_write tcp tls (Tls stream) buf =
     (case io_write tls stream buf of (r, stream') \<Rightarrow> (r, Tls stream'))"

fun st_flush ::
  "'tcp io_impl \<Rightarrow> 'tls io_impl \<Rightarrow> ('tcp, 'tls) StreamType
   \<Rightarrow> unit io_result \<times> ('tcp, 'tls) StreamType" where
  "st_flush tcp tls (Tcp stream) =
     (case io_flush tcp stream of (r, stream') \<Rightarrow> (r, Tcp stream'))"
| "st_flush tcp tls (Tls stream) =
     (case io_flush tls stream of (r, stream') \<Rightarrow> (r, Tls stream'))"

text \<open>
  \<open>prepare_uninitialized_buffer\<close> takes \<open>&self\<close> and forwards to the active
  variant; the source's comment records the obligation this override takes on.
\<close>

fun st_prepare_uninitialized_buffer ::
  "'tcp io_impl \<Rightarrow> 'tls io_impl \<Rightarrow> ('tcp, 'tls) StreamType \<Rightarrow> byte list
   \<Rightarrow> bool \<times> byte list" where
  "st_prepare_uninitialized_buffer tcp tls (Tcp stream) buf =
     io_prepare_uninitialized_buffer tcp stream buf"
| "st_prepare_uninitialized_buffer tcp tls (Tls stream) buf =
     io_prepare_uninitialized_buffer tls stream buf"

fun st_read_buf ::
  "'tcp io_impl \<Rightarrow> 'tls io_impl \<Rightarrow> ('tcp, 'tls) StreamType \<Rightarrow> buf_mut
   \<Rightarrow> nat poll \<times> buf_mut \<times> ('tcp, 'tls) StreamType" where
  "st_read_buf tcp tls (Tcp stream) buf =
     (case io_read_buf tcp stream buf of (p, buf', stream') \<Rightarrow> (p, buf', Tcp stream'))"
| "st_read_buf tcp tls (Tls stream) buf =
     (case io_read_buf tls stream buf of (p, buf', stream') \<Rightarrow> (p, buf', Tls stream'))"

fun st_shutdown ::
  "'tcp io_impl \<Rightarrow> 'tls io_impl \<Rightarrow> ('tcp, 'tls) StreamType
   \<Rightarrow> unit poll \<times> ('tcp, 'tls) StreamType" where
  "st_shutdown tcp tls (Tcp stream) =
     (case io_shutdown tcp stream of (p, stream') \<Rightarrow> (p, Tcp stream'))"
| "st_shutdown tcp tls (Tls stream) =
     (case io_shutdown tls stream of (p, stream') \<Rightarrow> (p, Tls stream'))"

fun st_write_buf ::
  "'tcp io_impl \<Rightarrow> 'tls io_impl \<Rightarrow> ('tcp, 'tls) StreamType \<Rightarrow> buf_cursor
   \<Rightarrow> nat poll \<times> buf_cursor \<times> ('tcp, 'tls) StreamType" where
  "st_write_buf tcp tls (Tcp stream) buf =
     (case io_write_buf tcp stream buf of (p, buf', stream') \<Rightarrow> (p, buf', Tcp stream'))"
| "st_write_buf tcp tls (Tls stream) buf =
     (case io_write_buf tls stream buf of (p, buf', stream') \<Rightarrow> (p, buf', Tls stream'))"

text \<open>The four \<open>impl\<close> blocks together: \<open>StreamType\<close>'s method record.\<close>

definition stream_type_impl ::
  "'tcp io_impl \<Rightarrow> 'tls io_impl \<Rightarrow> ('tcp, 'tls) StreamType io_impl" where
  "stream_type_impl tcp tls =
     \<lparr>io_read = st_read tcp tls, io_write = st_write tcp tls, io_flush = st_flush tcp tls,
      io_prepare_uninitialized_buffer = st_prepare_uninitialized_buffer tcp tls,
      io_read_buf = st_read_buf tcp tls, io_shutdown = st_shutdown tcp tls,
      io_write_buf = st_write_buf tcp tls\<rparr>"

section \<open>The build without the tls feature\<close>

text \<open>
  Without the \<open>tls\<close> feature the \<open>#[cfg(feature = "tls")]\<close> lines are compiled
  out: the enum has the single variant \<open>Tcp\<close>, there is one \<open>From\<close> impl, and
  every method's \<open>match\<close> has one arm. \<open>StreamTypeTcpOnly\<close>,
  \<open>from_tcp_only\<close> and \<open>tcp_only_impl\<close> are that build, translated from the same
  lines; \<open>full_of\<close> embeds it into the full build's \<open>Tcp\<close> variant.
\<close>

datatype 'tcp StreamTypeTcpOnly = TcpOnly 'tcp

definition from_tcp_only :: "'tcp \<Rightarrow> 'tcp StreamTypeTcpOnly" where
  "from_tcp_only stream = TcpOnly stream"

definition tcp_only_impl :: "'tcp io_impl \<Rightarrow> 'tcp StreamTypeTcpOnly io_impl" where
  "tcp_only_impl tcp =
     \<lparr>io_read = (\<lambda>st buf. case st of TcpOnly stream \<Rightarrow>
         (case io_read tcp stream buf of (r, buf', stream') \<Rightarrow> (r, buf', TcpOnly stream'))),
      io_write = (\<lambda>st buf. case st of TcpOnly stream \<Rightarrow>
         (case io_write tcp stream buf of (r, stream') \<Rightarrow> (r, TcpOnly stream'))),
      io_flush = (\<lambda>st. case st of TcpOnly stream \<Rightarrow>
         (case io_flush tcp stream of (r, stream') \<Rightarrow> (r, TcpOnly stream'))),
      io_prepare_uninitialized_buffer = (\<lambda>st buf. case st of TcpOnly stream \<Rightarrow>
         io_prepare_uninitialized_buffer tcp stream buf),
      io_read_buf = (\<lambda>st buf. case st of TcpOnly stream \<Rightarrow>
         (case io_read_buf tcp stream buf of (p, buf', stream') \<Rightarrow> (p, buf', TcpOnly stream'))),
      io_shutdown = (\<lambda>st. case st of TcpOnly stream \<Rightarrow>
         (case io_shutdown tcp stream of (p, stream') \<Rightarrow> (p, TcpOnly stream'))),
      io_write_buf = (\<lambda>st buf. case st of TcpOnly stream \<Rightarrow>
         (case io_write_buf tcp stream buf of (p, buf', stream') \<Rightarrow> (p, buf', TcpOnly stream')))\<rparr>"

fun full_of :: "'tcp StreamTypeTcpOnly \<Rightarrow> ('tcp, 'tls) StreamType" where
  "full_of (TcpOnly stream) = Tcp stream"

section \<open>Specifications of a transport\<close>

text \<open>
  What a transport promises, stated once for every transport: \<open>keeps impl invar\<close>,
  every call keeps the invariant; \<open>refines impl invar view spec\<close>, from a state with
  the invariant every call is a step of the abstract specification \<open>spec\<close> on the
  state's view (a refinement mapping). \<open>st_lift\<close> combines a per-variant view or
  invariant into one on \<open>StreamType\<close>; \<open>spec_trace\<close> is a run of the specification.
\<close>

definition keeps :: "'s io_impl \<Rightarrow> ('s \<Rightarrow> bool) \<Rightarrow> bool" where
  "keeps impl invar \<longleftrightarrow> (\<forall>s op. invar s \<longrightarrow> invar (snd (exec_op impl s op)))"

definition refines ::
  "'s io_impl \<Rightarrow> ('s \<Rightarrow> bool) \<Rightarrow> ('s \<Rightarrow> 'a) \<Rightarrow> ('a \<Rightarrow> io_op \<Rightarrow> io_outcome \<Rightarrow> 'a \<Rightarrow> bool) \<Rightarrow> bool" where
  "refines impl invar view spec \<longleftrightarrow>
     keeps impl invar \<and>
     (\<forall>s op. invar s \<longrightarrow> spec (view s) op (fst (exec_op impl s op)) (view (snd (exec_op impl s op))))"

fun st_lift :: "('tcp \<Rightarrow> 'a) \<Rightarrow> ('tls \<Rightarrow> 'a) \<Rightarrow> ('tcp, 'tls) StreamType \<Rightarrow> 'a" where
  "st_lift f g (Tcp s) = f s"
| "st_lift f g (Tls t) = g t"

inductive spec_trace ::
  "('a \<Rightarrow> io_op \<Rightarrow> io_outcome \<Rightarrow> 'a \<Rightarrow> bool) \<Rightarrow> 'a \<Rightarrow> io_op list \<Rightarrow> io_outcome list \<Rightarrow> 'a \<Rightarrow> bool"
  for spec where
  nil: "spec_trace spec a [] [] a"
| cons: "spec a op out a1 \<Longrightarrow> spec_trace spec a1 ops outs a' \<Longrightarrow> spec_trace spec a (op # ops) (out # outs) a'"

section \<open>Forwarding, one call at a time\<close>

lemma stream_type_impl_sel [simp]:
  "io_read (stream_type_impl tcp tls) = st_read tcp tls"
  "io_write (stream_type_impl tcp tls) = st_write tcp tls"
  "io_flush (stream_type_impl tcp tls) = st_flush tcp tls"
  "io_prepare_uninitialized_buffer (stream_type_impl tcp tls) = st_prepare_uninitialized_buffer tcp tls"
  "io_read_buf (stream_type_impl tcp tls) = st_read_buf tcp tls"
  "io_shutdown (stream_type_impl tcp tls) = st_shutdown tcp tls"
  "io_write_buf (stream_type_impl tcp tls) = st_write_buf tcp tls"
  by (simp_all add: stream_type_impl_def)

lemma from_tcp_Tcp: "from_tcp = Tcp" and from_tls_Tls: "from_tls = Tls"
  by (simp_all add: fun_eq_iff from_tcp_def from_tls_def)

lemma inj_Tcp: "inj Tcp" and inj_Tls: "inj Tls"
  by (auto intro: injI)

lemma exec_op_Tcp:
  "exec_op (stream_type_impl tcp tls) (Tcp s) op = apsnd Tcp (exec_op tcp s op)"
  by (cases op) (simp_all split: prod.splits)

lemma exec_op_Tls:
  "exec_op (stream_type_impl tcp tls) (Tls s) op = apsnd Tls (exec_op tls s op)"
  by (cases op) (simp_all split: prod.splits)

section \<open>Properties of StreamType\<close>

text \<open>C1. Round-trip transparency: running any sequence of read, write, flush, read_buf, write_buf and shutdown calls on a StreamType made by from_tcp (from_tls) gives exactly the outcomes of running it on the wrapped stream directly, and the final StreamType wraps the wrapped stream's final state in the same variant.\<close>

theorem stream_type_transparent:
  "run_ops (stream_type_impl tcp tls) (from_tcp s) ops = apsnd from_tcp (run_ops tcp s ops)
   \<and> run_ops (stream_type_impl tcp tls) (from_tls t) ops = apsnd from_tls (run_ops tls t ops)"
proof -
  have tcp: "run_ops (stream_type_impl tcp tls) (Tcp s) ops = apsnd Tcp (run_ops tcp s ops)" for s
  proof (induction ops arbitrary: s)
    case (Cons op ops)
    then show ?case by (cases op) (simp_all split: prod.splits)
  qed simp
  have tls: "run_ops (stream_type_impl tcp tls) (Tls t) ops = apsnd Tls (run_ops tls t ops)" for t
  proof (induction ops arbitrary: t)
    case (Cons op ops)
    then show ?case by (cases op) (simp_all split: prod.splits)
  qed simp
  show ?thesis by (simp add: from_tcp_Tcp from_tls_Tls tcp tls)
qed

lemma read_oblivious_stream_type [simp]:
  "read_oblivious (stream_type_impl tcp tls) (Tcp s) n = read_oblivious tcp s n"
  "read_oblivious (stream_type_impl tcp tls) (Tls t) n = read_oblivious tls t n"
  by (simp_all add: read_oblivious_def apsnd_apsnd_eq_iff inj_Tcp inj_Tls)

text \<open>C2. The obligation stated in the comment on prepare_uninitialized_buffer: if both wrapped transports keep the contract of prepare_uninitialized_buffer (true means the buffer was zeroed, false means read never looks at it), so does StreamType.\<close>

theorem stream_type_uninit_sound:
  assumes "uninit_sound tcp" and "uninit_sound tls"
  shows "uninit_sound (stream_type_impl tcp tls)"
  unfolding uninit_sound_def
proof (intro allI)
  fix st and b :: "byte list"
  show "if fst (io_prepare_uninitialized_buffer (stream_type_impl tcp tls) st b)
        then snd (io_prepare_uninitialized_buffer (stream_type_impl tcp tls) st b) = replicate (length b) 0
        else length (snd (io_prepare_uninitialized_buffer (stream_type_impl tcp tls) st b)) = length b
             \<and> read_oblivious (stream_type_impl tcp tls) st (length b)"
    using assms unfolding uninit_sound_def by (cases st) simp_all
qed

text \<open>C4. Bounds forwarded: if both wrapped transports report at most as many bytes as the buffer holds and keep its length, so does StreamType for read and write.\<close>

theorem stream_type_contracts:
  assumes "read_contract tcp" "read_contract tls" "write_contract tcp" "write_contract tls"
  shows "read_contract (stream_type_impl tcp tls) \<and> write_contract (stream_type_impl tcp tls)"
proof
  show "read_contract (stream_type_impl tcp tls)"
    unfolding read_contract_def
  proof (intro allI)
    fix st and b :: "byte list"
    show "length (fst (snd (io_read (stream_type_impl tcp tls) st b))) = length b
          \<and> res_count (fst (io_read (stream_type_impl tcp tls) st b)) \<le> length b"
      using assms(1,2) unfolding read_contract_def by (cases st) simp_all
  qed
next
  show "write_contract (stream_type_impl tcp tls)"
    unfolding write_contract_def
  proof (intro allI)
    fix st and b :: "byte list"
    show "res_count (fst (io_write (stream_type_impl tcp tls) st b)) \<le> length b"
      using assms(3,4) unfolding write_contract_def by (cases st) simp_all
  qed
qed

text \<open>C3. No uninitialised memory reaches the caller: if the read_buf of both wrapped transports is observed alike on buffers that differ only in their spare (uninitialised) bytes, so is StreamType's read_buf.\<close>

theorem stream_type_read_buf_safe:
  assumes tcp: "read_buf_safe tcp" and tls: "read_buf_safe tls"
  shows "read_buf_safe (stream_type_impl tcp tls)"
  unfolding read_buf_safe_def
proof (intro allI impI)
  fix st and m1 m2 :: buf_mut
  assume eq: "bm_filled m1 = bm_filled m2" "length (bm_spare m1) = length (bm_spare m2)"
  show "rb_observe (io_read_buf (stream_type_impl tcp tls) st m1) =
        rb_observe (io_read_buf (stream_type_impl tcp tls) st m2)"
  proof (cases st)
    case (Tcp s)
    with read_buf_safeD [OF tcp eq, of s] show ?thesis by simp
  next
    case (Tls s)
    with read_buf_safeD [OF tls eq, of s] show ?thesis by simp
  qed
qed

text \<open>C5. StreamType overrides read_buf by forwarding; when both wrapped transports use the default read_buf, the override computes exactly what the default read_buf over StreamType's own read and prepare_uninitialized_buffer would.\<close>

theorem st_read_buf_default:
  assumes "io_read_buf tcp = read_buf_of tcp" and "io_read_buf tls = read_buf_of tls"
  shows "st_read_buf tcp tls st buf = read_buf_of (stream_type_impl tcp tls) st buf"
proof (cases st)
  case (Tcp s)
  then show ?thesis using assms(1)
    by (simp add: default_read_buf_def Let_def split: prod.splits sum.splits)
next
  case (Tls s)
  then show ?thesis using assms(2)
    by (simp add: default_read_buf_def Let_def split: prod.splits sum.splits)
qed

text \<open>C6. StreamType overrides write_buf by forwarding; when both wrapped transports use the default write_buf, the override computes exactly what the default write_buf over StreamType's own write would.\<close>

theorem st_write_buf_default:
  assumes "io_write_buf tcp = write_buf_of tcp" and "io_write_buf tls = write_buf_of tls"
  shows "st_write_buf tcp tls st buf = write_buf_of (stream_type_impl tcp tls) st buf"
proof (cases st)
  case (Tcp s)
  obtain r t where "io_write tcp s (buf_bytes buf) = (r, t)" by fastforce
  with Tcp show ?thesis using assms(1)
    by (cases r) (simp_all add: default_write_buf_def)
next
  case (Tls s)
  obtain r t where "io_write tls s (buf_bytes buf) = (r, t)" by fastforce
  with Tls show ?thesis using assms(2)
    by (cases r) (simp_all add: default_write_buf_def)
qed

text \<open>C7. Refinement survives StreamType: if each wrapped transport refines the same abstract specification under a refinement mapping, then every run of calls on a StreamType is a run of that specification under the combined mapping, and keeps the combined invariant.\<close>

theorem stream_type_refines:
  assumes tcp: "refines tcp I \<alpha> spec" and tls: "refines tls J \<beta> spec"
  shows "st_lift I J st \<Longrightarrow> run_ops (stream_type_impl tcp tls) st ops = (outs, st') \<Longrightarrow>
         st_lift I J st' \<and> spec_trace spec (st_lift \<alpha> \<beta> st) ops outs (st_lift \<alpha> \<beta> st')"
proof (induction ops arbitrary: st outs)
  case Nil
  then show ?case by (auto intro: spec_trace.nil)
next
  case (Cons op ops)
  obtain out st1 where e: "exec_op (stream_type_impl tcp tls) st op = (out, st1)"
    by (cases "exec_op (stream_type_impl tcp tls) st op")
  obtain outs1 where r: "run_ops (stream_type_impl tcp tls) st1 ops = (outs1, st')" "outs = out # outs1"
    using Cons.prems(2) e by (auto split: prod.splits)
  have fwd_tcp: "exec_op (stream_type_impl tcp tls) (Tcp s) op = apsnd Tcp (exec_op tcp s op)" for s
    by (cases op) (simp_all split: prod.splits)
  have fwd_tls: "exec_op (stream_type_impl tcp tls) (Tls t) op = apsnd Tls (exec_op tls t op)" for t
    by (cases op) (simp_all split: prod.splits)
  have one: "st_lift I J st1 \<and> spec (st_lift \<alpha> \<beta> st) op out (st_lift \<alpha> \<beta> st1)"
  proof (cases st)
    case (Tcp s)
    then have x: "(out, st1) = apsnd Tcp (exec_op tcp s op)" using e fwd_tcp by simp
    then have "out = fst (exec_op tcp s op)" "st1 = Tcp (snd (exec_op tcp s op))"
      by (metis fst_apsnd fst_conv, metis snd_apsnd snd_conv)
    then show ?thesis using Cons.prems(1) Tcp tcp unfolding refines_def keeps_def by simp
  next
    case (Tls t)
    then have x: "(out, st1) = apsnd Tls (exec_op tls t op)" using e fwd_tls by simp
    then have "out = fst (exec_op tls t op)" "st1 = Tls (snd (exec_op tls t op))"
      by (metis fst_apsnd fst_conv, metis snd_apsnd snd_conv)
    then show ?thesis using Cons.prems(1) Tls tls unfolding refines_def keeps_def by simp
  qed
  show ?case using Cons.IH [OF conjunct1 [OF one] r(1)] one r(2) by (auto intro: spec_trace.cons)
qed

section \<open>Termination of read loops is kept\<close>

lemma read_measured_stream_type:
  assumes "read_measured tcp \<mu> P" and "read_measured tls \<nu> Q"
  shows "read_measured (stream_type_impl tcp tls) (st_lift \<mu> \<nu>) (st_lift P Q)"
  unfolding read_measured_def
proof (intro allI impI)
  fix st and buf :: "byte list"
  assume "st_lift P Q st" "buf \<noteq> []"
  show "st_lift P Q (snd (snd (io_read (stream_type_impl tcp tls) st buf)))
       \<and> (case fst (io_read (stream_type_impl tcp tls) st buf) of
            Inr n \<Rightarrow> 0 < n \<longrightarrow> st_lift \<mu> \<nu> (snd (snd (io_read (stream_type_impl tcp tls) st buf))) < st_lift \<mu> \<nu> st
          | Inl e \<Rightarrow> e \<noteq> Interrupted)"
  proof (cases st)
    case (Tcp s)
    then have "P s" using \<open>st_lift P Q st\<close> by simp
    then show ?thesis using assms(1) [unfolded read_measured_def, rule_format, of s buf] Tcp \<open>buf \<noteq> []\<close>
      by (simp split: sum.splits)
  next
    case (Tls s)
    then have "Q s" using \<open>st_lift P Q st\<close> by simp
    then show ?thesis using assms(2) [unfolded read_measured_def, rule_format, of s buf] Tls \<open>buf \<noteq> []\<close>
      by (simp split: sum.splits)
  qed
qed

text \<open>C14. The build without the tls feature is the plain variant of the full build: its conversion gives the full build's Tcp value, and every sequence of calls gives the same outcomes and the same final stream.\<close>

theorem tcp_only_build_equiv:
  "full_of (from_tcp_only s) = (from_tcp s :: ('tcp, 'tls) StreamType)
   \<and> run_ops (stream_type_impl tcp tls) (full_of st) ops = apsnd full_of (run_ops (tcp_only_impl tcp) st ops)"
proof
  show "full_of (from_tcp_only s) = (from_tcp s :: ('tcp, 'tls) StreamType)"
    by (simp add: from_tcp_only_def from_tcp_def)
next
  have step: "exec_op (stream_type_impl tcp tls) (full_of st) op = apsnd full_of (exec_op (tcp_only_impl tcp) st op)"
    for st op by (cases st; cases op) (simp_all add: tcp_only_impl_def prod.case_eq_if)
  show "run_ops (stream_type_impl tcp tls) (full_of st) ops = apsnd full_of (run_ops (tcp_only_impl tcp) st ops)"
  proof (induction ops arbitrary: st)
    case (Cons op ops)
    obtain out st1 where e: "exec_op (tcp_only_impl tcp) st op = (out, st1)"
      by (cases "exec_op (tcp_only_impl tcp) st op")
    obtain outs st2 where r: "run_ops (tcp_only_impl tcp) st1 ops = (outs, st2)"
      by (cases "run_ops (tcp_only_impl tcp) st1 ops")
    show ?case using Cons.IH [of st1] step [of st op] e r by simp
  qed simp
qed

section \<open>The build without the tls feature keeps the contracts\<close>

lemma tcp_only_impl_sel [simp]:
  "io_read (tcp_only_impl tcp) (TcpOnly s) b = apsnd (apsnd TcpOnly) (io_read tcp s b)"
  "io_write (tcp_only_impl tcp) (TcpOnly s) b = apsnd TcpOnly (io_write tcp s b)"
  "io_prepare_uninitialized_buffer (tcp_only_impl tcp) (TcpOnly s) b = io_prepare_uninitialized_buffer tcp s b"
  "io_read_buf (tcp_only_impl tcp) (TcpOnly s) m = apsnd (apsnd TcpOnly) (io_read_buf tcp s m)"
  by (simp_all add: tcp_only_impl_def)

lemma inj_TcpOnly: "inj TcpOnly"
  by (auto intro: injI)

lemma read_oblivious_tcp_only [simp]:
  "read_oblivious (tcp_only_impl tcp) (TcpOnly s) n = read_oblivious tcp s n"
  by (simp add: read_oblivious_def apsnd_apsnd_eq_iff [OF inj_TcpOnly])

text \<open>C15. The build without the tls feature keeps the transport contracts: if the TcpStream it wraps keeps the contract of prepare_uninitialized_buffer, reads and writes within the buffer, and has a read_buf that never exposes uninitialised bytes, then the tcp-only StreamType does all four.\<close>

theorem tcp_only_contracts:
  assumes "uninit_sound tcp" and safe: "read_buf_safe tcp" and "read_contract tcp" and "write_contract tcp"
  shows "uninit_sound (tcp_only_impl tcp) \<and> read_buf_safe (tcp_only_impl tcp)
       \<and> read_contract (tcp_only_impl tcp) \<and> write_contract (tcp_only_impl tcp)"
proof (intro conjI)
  show "uninit_sound (tcp_only_impl tcp)"
    using assms(1) unfolding uninit_sound_def
  proof (intro allI)
    fix st and b :: "byte list"
    assume u: "\<forall>s b. if fst (io_prepare_uninitialized_buffer tcp s b)
            then snd (io_prepare_uninitialized_buffer tcp s b) = replicate (length b) 0
            else length (snd (io_prepare_uninitialized_buffer tcp s b)) = length b
                 \<and> read_oblivious tcp s (length b)"
    show "if fst (io_prepare_uninitialized_buffer (tcp_only_impl tcp) st b)
          then snd (io_prepare_uninitialized_buffer (tcp_only_impl tcp) st b) = replicate (length b) 0
          else length (snd (io_prepare_uninitialized_buffer (tcp_only_impl tcp) st b)) = length b
               \<and> read_oblivious (tcp_only_impl tcp) st (length b)"
      using u by (cases st) simp
  qed
  show "read_buf_safe (tcp_only_impl tcp)"
    unfolding read_buf_safe_def
  proof (intro allI impI)
    fix st and m1 m2 :: buf_mut
    assume eq: "bm_filled m1 = bm_filled m2" "length (bm_spare m1) = length (bm_spare m2)"
    show "rb_observe (io_read_buf (tcp_only_impl tcp) st m1) = rb_observe (io_read_buf (tcp_only_impl tcp) st m2)"
      using read_buf_safeD [OF safe eq] by (cases st) simp
  qed
  show "read_contract (tcp_only_impl tcp)"
    using assms(3) unfolding read_contract_def by (metis StreamTypeTcpOnly.exhaust tcp_only_impl_sel(1) fst_apsnd snd_apsnd)
  show "write_contract (tcp_only_impl tcp)"
    using assms(4) unfolding write_contract_def by (metis StreamTypeTcpOnly.exhaust tcp_only_impl_sel(2) fst_apsnd)
qed

section \<open>Buffer contracts through StreamType\<close>

text \<open>C17. Buffer contracts forwarded: if the read_buf of both wrapped transports keeps the buffer's capacity and appends exactly the bytes it reports, and their write_buf advances the cursor exactly by the count it reports and within the data, then StreamType's read_buf and write_buf do the same.\<close>

theorem stream_type_buf_contracts:
  assumes "read_buf_contract tcp" and "read_buf_contract tls"
    and "write_buf_contract tcp" and "write_buf_contract tls"
  shows "read_buf_contract (stream_type_impl tcp tls) \<and> write_buf_contract (stream_type_impl tcp tls)"
proof
  show "read_buf_contract (stream_type_impl tcp tls)"
    unfolding read_buf_contract_def
  proof (intro allI)
    fix st and m :: buf_mut
    show "case io_read_buf (stream_type_impl tcp tls) st m of (p, m', s') \<Rightarrow>
        length (bm_filled m') + length (bm_spare m') = length (bm_filled m) + length (bm_spare m)
        \<and> (\<exists>new. bm_filled m' = bm_filled m @ new \<and> length new = (case p of Inr (Ready n) \<Rightarrow> n | _ \<Rightarrow> 0))"
    proof (cases st)
      case (Tcp s)
      then show ?thesis using assms(1) [unfolded read_buf_contract_def, THEN spec [of _ s], THEN spec [of _ m]]
        by (simp split: prod.splits)
    next
      case (Tls s)
      then show ?thesis using assms(2) [unfolded read_buf_contract_def, THEN spec [of _ s], THEN spec [of _ m]]
        by (simp split: prod.splits)
    qed
  qed
  show "write_buf_contract (stream_type_impl tcp tls)"
    unfolding write_buf_contract_def
  proof (intro allI impI)
    fix st and c :: buf_cursor
    assume wf: "cursor_wf c"
    show "case io_write_buf (stream_type_impl tcp tls) st c of (p, c', s') \<Rightarrow>
        cursor_wf c' \<and> bc_data c' = bc_data c \<and> bc_pos c' = bc_pos c + (case p of Inr (Ready n) \<Rightarrow> n | _ \<Rightarrow> 0)"
    proof (cases st)
      case (Tcp s)
      then show ?thesis using assms(3) [unfolded write_buf_contract_def, THEN spec [of _ s], THEN spec [of _ c]] wf
        by (simp split: prod.splits)
    next
      case (Tls s)
      then show ?thesis using assms(4) [unfolded write_buf_contract_def, THEN spec [of _ s], THEN spec [of _ c]] wf
        by (simp split: prod.splits)
    qed
  qed
qed

end
