(* ===== verification/Tcp_Model.thy ===== *)
theory Tcp_Model
  imports Stream_Type
begin

text \<open>
  A model of the plain transport \<open>StreamType::Tcp\<close> wraps: tokio-core's non-blocking
  \<open>TcpStream\<close> over a connected socket, and the network between two such sockets.
  This is library code the repository only calls, modelled from the spec (sections 4.1
  and 5): partial reads and writes, would-block with a wake-up registration instead of
  blocking, errors reported as they are, end of stream as a read of 0 bytes, and
  \<open>prepare_uninitialized_buffer\<close> answering false because a socket read never
  looks at the buffer.

  The socket state keeps the kernel's receive queue and end-of-stream flag, the bytes
  sent and not yet delivered to the peer, the free room of the send buffer, whether the
  write half is shut down, a pending socket error, and whether the owning task is
  registered for a read or write wake-up (tokio's \<open>need_read\<close>/\<open>need_write\<close>).
\<close>

section \<open>The socket\<close>

record tcp_sock =
  rx_data :: "byte list"
  rx_eof :: bool
  tx_data :: "byte list"
  tx_room :: nat
  wr_closed :: bool
  sock_err :: "io_error_kind option"
  read_waiter :: bool
  write_waiter :: bool

text \<open>A freshly connected socket with a send buffer of \<open>room\<close> bytes.\<close>

definition tcp_connected :: "nat \<Rightarrow> tcp_sock" where
  "tcp_connected room =
     \<lparr>rx_data = [], rx_eof = False, tx_data = [], tx_room = room, wr_closed = False,
      sock_err = None, read_waiter = False, write_waiter = False\<rparr>"

text \<open>
  Readiness as the reactor reports it: readable when there is data, end of stream or an
  error; writable when there is room, the write half is closed, or an error.
\<close>

definition tcp_read_ready :: "tcp_sock \<Rightarrow> bool" where
  "tcp_read_ready s \<longleftrightarrow> sock_err s \<noteq> None \<or> rx_data s \<noteq> [] \<or> rx_eof s"

definition tcp_write_ready :: "tcp_sock \<Rightarrow> bool" where
  "tcp_write_ready s \<longleftrightarrow> sock_err s \<noteq> None \<or> wr_closed s \<or> 0 < tx_room s"

section \<open>The methods\<close>

text \<open>
  \<open>read\<close>: not readable gives \<open>WouldBlock\<close> and registers the task for a read
  wake-up; a pending error is returned as it is; otherwise as many queued bytes as fit
  are copied to the front of the buffer (none at end of stream).
\<close>

definition tcp_read :: "tcp_sock \<Rightarrow> byte list \<Rightarrow> nat io_result \<times> byte list \<times> tcp_sock" where
  "tcp_read s buf =
     (if \<not> tcp_read_ready s then (Inl WouldBlock, buf, s\<lparr>read_waiter := True\<rparr>)
      else case sock_err s of
        Some e \<Rightarrow> (Inl e, buf, s)
      | None \<Rightarrow>
          let n = min (length buf) (length (rx_data s))
          in (Inr n, copy_prefix (rx_data s) buf, s\<lparr>rx_data := drop n (rx_data s)\<rparr>))"

text \<open>
  \<open>write\<close>: not writable gives \<open>WouldBlock\<close> and registers the task for a write
  wake-up; a pending error is returned; a shut-down write half gives \<open>BrokenPipe\<close>;
  otherwise as many bytes as the send buffer has room for are queued.
\<close>

definition tcp_write :: "tcp_sock \<Rightarrow> byte list \<Rightarrow> nat io_result \<times> tcp_sock" where
  "tcp_write s buf =
     (if \<not> tcp_write_ready s then (Inl WouldBlock, s\<lparr>write_waiter := True\<rparr>)
      else case sock_err s of
        Some e \<Rightarrow> (Inl e, s)
      | None \<Rightarrow>
          if wr_closed s then (Inl BrokenPipe, s)
          else
            let n = min (length buf) (tx_room s)
            in (Inr n, s\<lparr>tx_data := tx_data s @ take n buf, tx_room := tx_room s - n\<rparr>))"

text \<open>\<open>flush\<close>: a socket buffers nothing in user space; only write readiness is checked.\<close>

definition tcp_flush :: "tcp_sock \<Rightarrow> unit io_result \<times> tcp_sock" where
  "tcp_flush s =
     (if \<not> tcp_write_ready s then (Inl WouldBlock, s\<lparr>write_waiter := True\<rparr>)
      else (Inr (), s))"

text \<open>\<open>prepare_uninitialized_buffer\<close>: false, the buffer is left as it is.\<close>

definition tcp_prepare_uninitialized_buffer :: "tcp_sock \<Rightarrow> byte list \<Rightarrow> bool \<times> byte list" where
  "tcp_prepare_uninitialized_buffer s buf = (False, buf)"

text \<open>
  \<open>shutdown\<close>: the spec's plain-variant shutdown closes the write half directly, with
  no handshake; a pending error is returned instead.
\<close>

definition tcp_shutdown :: "tcp_sock \<Rightarrow> unit poll \<times> tcp_sock" where
  "tcp_shutdown s =
     (case sock_err s of
        Some e \<Rightarrow> (Inl e, s)
      | None \<Rightarrow> (Inr (Ready ()), s\<lparr>wr_closed := True\<rparr>))"

text \<open>
  The method record. \<open>read_buf\<close> and \<open>write_buf\<close> behave as the trait defaults over
  the socket's \<open>read\<close> and \<open>write\<close> (tokio-core's vectored versions copy the same
  bytes).
\<close>

definition tcp_impl :: "tcp_sock io_impl" where
  "tcp_impl =
     \<lparr>io_read = tcp_read, io_write = tcp_write, io_flush = tcp_flush,
      io_prepare_uninitialized_buffer = tcp_prepare_uninitialized_buffer,
      io_read_buf = default_read_buf tcp_read tcp_prepare_uninitialized_buffer,
      io_shutdown = tcp_shutdown, io_write_buf = default_write_buf tcp_write\<rparr>"

section \<open>The network\<close>

text \<open>
  Delivery moves everything \<open>a\<close> has sent into \<open>b\<close>'s receive queue, frees \<open>a\<close>'s
  send buffer, and passes on \<open>a\<close>'s end of stream. A task registered on \<open>b\<close> for
  reading is notified when something arrives (the third component), and its
  registration is consumed.
\<close>

definition tcp_deliver :: "tcp_sock \<Rightarrow> tcp_sock \<Rightarrow> tcp_sock \<times> tcp_sock \<times> bool" where
  "tcp_deliver a b =
     (let arrives = tx_data a \<noteq> [] \<or> wr_closed a;
          wake = read_waiter b \<and> arrives
      in (a\<lparr>tx_data := [], tx_room := tx_room a + length (tx_data a), write_waiter := False\<rparr>,
          b\<lparr>rx_data := rx_data b @ tx_data a, rx_eof := rx_eof b \<or> wr_closed a,
            read_waiter := read_waiter b \<and> \<not> arrives\<rparr>,
          wake))"

text \<open>Send-buffer accounting: free room plus queued bytes is the capacity \<open>cap\<close>.\<close>

definition tx_accounted :: "nat \<Rightarrow> tcp_sock \<Rightarrow> bool" where
  "tx_accounted cap t \<longleftrightarrow> tx_room t + length (tx_data t) = cap"

section \<open>The socket keeps the interface contracts\<close>

lemma tcp_impl_sel [simp]:
  "io_read tcp_impl = tcp_read"
  "io_write tcp_impl = tcp_write"
  "io_flush tcp_impl = tcp_flush"
  "io_prepare_uninitialized_buffer tcp_impl = tcp_prepare_uninitialized_buffer"
  "io_read_buf tcp_impl = default_read_buf tcp_read tcp_prepare_uninitialized_buffer"
  "io_shutdown tcp_impl = tcp_shutdown"
  "io_write_buf tcp_impl = default_write_buf tcp_write"
  by (simp_all add: tcp_impl_def)

lemma tcp_read_shape:
  "tcp_read s buf =
     (if \<not> tcp_read_ready s then (Inl WouldBlock, buf, s\<lparr>read_waiter := True\<rparr>)
      else if sock_err s \<noteq> None then (Inl (the (sock_err s)), buf, s)
      else (Inr (min (length buf) (length (rx_data s))), copy_prefix (rx_data s) buf,
            s\<lparr>rx_data := drop (length buf) (rx_data s)\<rparr>))"
proof -
  have "drop (min (length buf) (length (rx_data s))) (rx_data s) = drop (length buf) (rx_data s)"
    by (simp add: min_def)
  then show ?thesis by (auto simp: tcp_read_def Let_def split: option.splits)
qed

lemma tcp_read_contract: "read_contract tcp_impl"
  unfolding read_contract_def by (simp add: tcp_read_shape)

lemma tcp_write_contract: "write_contract tcp_impl"
  unfolding write_contract_def by (simp add: tcp_write_def Let_def split: option.splits)

lemma tcp_read_oblivious: "read_oblivious tcp_impl s n"
  unfolding read_oblivious_def
proof (intro allI impI)
  fix b1 b2 :: "byte list"
  assume "length b1 = n" "length b2 = n"
  then show "read_observe (io_read tcp_impl s b1) = read_observe (io_read tcp_impl s b2)"
    by (simp add: tcp_read_shape copy_prefix_def min_def)
qed

lemma tcp_uninit_sound: "uninit_sound tcp_impl"
  unfolding uninit_sound_def
  by (simp add: tcp_prepare_uninitialized_buffer_def tcp_read_oblivious)

lemma tcp_read_buf_safe: "read_buf_safe tcp_impl"
  by (rule default_read_buf_is_safe) (simp_all add: tcp_uninit_sound tcp_read_contract)

lemma tcp_buf_contracts: "read_buf_contract tcp_impl \<and> write_buf_contract tcp_impl"
  by (simp add: default_read_buf_contract default_write_buf_contract tcp_read_contract
      tcp_write_contract tcp_uninit_sound)

section \<open>StreamType over a socket\<close>

lemma buf_mut_spare_same [simp]: "m\<lparr>bm_spare := bm_spare m\<rparr> = m"
  by simp

lemma tcp_read_buf_shape:
  "default_read_buf tcp_read tcp_prepare_uninitialized_buffer s m =
     (if \<not> has_remaining_mut m then (Inr (Ready 0), m, s)
      else if \<not> tcp_read_ready s then (Inr NotReady, m, s\<lparr>read_waiter := True\<rparr>)
      else if sock_err s \<noteq> None then
        (if the (sock_err s) = WouldBlock then Inr NotReady else Inl (the (sock_err s)), m, s)
      else
        (Inr (Ready (min (remaining_mut m) (length (rx_data s)))),
         advance_mut (min (remaining_mut m) (length (rx_data s)))
           (m\<lparr>bm_spare := copy_prefix (rx_data s) (bm_spare m)\<rparr>),
         s\<lparr>rx_data := drop (remaining_mut m) (rx_data s)\<rparr>))"
  by (simp add: default_read_buf_def tcp_prepare_uninitialized_buffer_def tcp_read_shape
      remaining_mut_def Let_def)

text \<open>C10. No missed wake-up: a read_buf on a plain socket with no data answers NotReady once and registers the task; delivering the peer's bytes notifies the task, and the retried read_buf returns Ready with those bytes appended to the buffer.\<close>

theorem tcp_no_missed_wakeup:
  assumes idle: "sock_err b = None" "rx_data b = []" "\<not> rx_eof b"
    and sent: "tx_data a \<noteq> []" and room: "has_remaining_mut m"
    and net: "tcp_deliver a (b\<lparr>read_waiter := True\<rparr>) = (a', b', wake)"
  shows "st_read_buf tcp_impl tls (from_tcp b) m = (Inr NotReady, m, from_tcp (b\<lparr>read_waiter := True\<rparr>))
       \<and> wake
       \<and> st_read_buf tcp_impl tls (from_tcp b') m =
           (Inr (Ready (min (remaining_mut m) (length (tx_data a)))),
            m\<lparr>bm_filled := bm_filled m @ take (remaining_mut m) (tx_data a),
              bm_spare := drop (min (remaining_mut m) (length (tx_data a)))
                            (copy_prefix (tx_data a) (bm_spare m))\<rparr>,
            from_tcp (b'\<lparr>rx_data := drop (remaining_mut m) (tx_data a)\<rparr>))"
proof -
  have b': "b' = b\<lparr>rx_data := tx_data a, rx_eof := wr_closed a, read_waiter := False\<rparr>"
    and w: "wake"
    using net idle sent by (auto simp: tcp_deliver_def Let_def)
  have first: "st_read_buf tcp_impl tls (from_tcp b) m = (Inr NotReady, m, from_tcp (b\<lparr>read_waiter := True\<rparr>))"
    using idle room by (simp add: from_tcp_Tcp tcp_read_buf_shape tcp_read_ready_def)
  have "take (min (remaining_mut m) (length (tx_data a))) (copy_prefix (tx_data a) (bm_spare m))
        = take (remaining_mut m) (tx_data a)"
    by (simp add: copy_prefix_def remaining_mut_def min_def)
  then have second: "st_read_buf tcp_impl tls (from_tcp b') m =
           (Inr (Ready (min (remaining_mut m) (length (tx_data a)))),
            m\<lparr>bm_filled := bm_filled m @ take (remaining_mut m) (tx_data a),
              bm_spare := drop (min (remaining_mut m) (length (tx_data a)))
                            (copy_prefix (tx_data a) (bm_spare m))\<rparr>,
            from_tcp (b'\<lparr>rx_data := drop (remaining_mut m) (tx_data a)\<rparr>))"
    using idle room sent b'
    by (simp add: from_tcp_Tcp tcp_read_buf_shape tcp_read_ready_def advance_mut_def)
  from first w second show ?thesis by blast
qed

section \<open>The send buffer is accounted for\<close>

lemma tcp_read_tx: "tcp_read t b = (r, b', t') \<Longrightarrow> tx_data t' = tx_data t \<and> tx_room t' = tx_room t \<and> wr_closed t' = wr_closed t"
  by (auto simp: tcp_read_shape split: if_splits)

lemma tcp_write_accounted: "tcp_write t b = (r, t') \<Longrightarrow> tx_accounted cap t \<Longrightarrow> tx_accounted cap t'"
  by (auto simp: tcp_write_def tx_accounted_def Let_def split: if_splits option.splits)

lemma tcp_keeps_accounted: "keeps tcp_impl (tx_accounted cap)"
  unfolding keeps_def
proof (intro allI impI)
  fix s op assume a: "tx_accounted cap s"
  show "tx_accounted cap (snd (exec_op tcp_impl s op))"
  proof (cases op)
    case (OpRead n)
    then show ?thesis using a tcp_read_tx [of s "replicate n 0"] by (auto simp: tx_accounted_def split: prod.splits)
  next
    case (OpWrite b)
    then show ?thesis using a tcp_write_accounted [of s b] by (auto split: prod.splits)
  next
    case OpFlush
    then show ?thesis using a by (simp add: tcp_flush_def tx_accounted_def)
  next
    case (OpReadBuf m)
    then show ?thesis using a by (simp add: tcp_read_buf_shape tx_accounted_def)
  next
    case (OpWriteBuf c)
    then show ?thesis using a tcp_write_accounted
      by (auto simp: default_write_buf_def Let_def split: prod.splits sum.splits if_splits)
  next
    case OpShutdown
    then show ?thesis using a by (simp add: tcp_shutdown_def tx_accounted_def split: option.splits)
  qed
qed

end
