(* ===== verification/Tls_Record.thy ===== *)
theory Tls_Record
  imports Io_Prelude
begin

unbundle bit_operations_syntax

text \<open>
  The wire format of the secure transport, after TLS's record layer: a record is a
  content type byte (23 application data, 21 alert), a 16-bit big-endian length written
  as two \<open>8 word\<close> bytes, and the payload. The negotiated cipher is abstracted to a
  one-byte session key applied with \<open>XOR\<close>: what matters here is that the payload on
  the wire is a transformation the peer inverts. A close notification is the alert
  \<open>[1, 0]\<close> (warning, close_notify). \<open>parse_record\<close> opens the first record of a
  byte sequence; \<open>decode_stream\<close> opens all of them, the plaintext a peer recovers
  from a well-formed stream (non-empty application records, at most one close
  notification, last), defined by \<open>function\<close> with the termination argument that
  every opened record consumes at least its three header bytes. The lemmas: decoding
  inverts encoding (\<open>parse_encode_AppData\<close>, \<open>decode_stream_record\<close>) and decoding
  a concatenation is the concatenation of the decodings (\<open>decode_stream_append\<close>).
\<close>

section \<open>Records on the wire\<close>

datatype tls_record = AppData "byte list" | CloseNotify

definition max_fragment :: nat where
  "max_fragment = 16384"

definition seal :: "byte \<Rightarrow> byte list \<Rightarrow> byte list" where
  "seal key bs = map (\<lambda>b. b XOR key) bs"

definition u16_be :: "nat \<Rightarrow> byte list" where
  "u16_be n = [of_nat (n div 256), of_nat (n mod 256)]"

fun encode_record :: "byte \<Rightarrow> tls_record \<Rightarrow> byte list" where
  "encode_record key (AppData bs) = 23 # u16_be (length bs) @ seal key bs"
| "encode_record key CloseNotify = [21, 0, 2, 1, 0]"

datatype parse_result = Parsed tls_record "byte list" | Incomplete | Malformed

definition parse_record :: "byte \<Rightarrow> byte list \<Rightarrow> parse_result" where
  "parse_record key bytes =
     (case bytes of
        ty # hi # lo # rest \<Rightarrow>
          (let len = unat hi * 256 + unat lo
           in if length rest < len then Incomplete
              else if ty = 23 then Parsed (AppData (seal key (take len rest))) (drop len rest)
              else if ty = 21 \<and> take len rest = [1, 0] then Parsed CloseNotify (drop len rest)
              else Malformed)
      | _ \<Rightarrow> Incomplete)"

text \<open>
  The plaintext carried by a whole stream of records and whether it ends with a close
  notification; \<open>None\<close> for a stream that is not a sequence of whole, non-empty
  application records with at most a final close notification.
\<close>

function decode_stream :: "byte \<Rightarrow> byte list \<Rightarrow> (byte list \<times> bool) option" where
  "decode_stream key bytes =
     (if bytes = [] then Some ([], False)
      else case parse_record key bytes of
        Parsed (AppData p) rest \<Rightarrow>
          if p = [] then None
          else (case decode_stream key rest of Some (t, cl) \<Rightarrow> Some (p @ t, cl) | None \<Rightarrow> None)
      | Parsed CloseNotify rest \<Rightarrow> if rest = [] then Some ([], True) else None
      | _ \<Rightarrow> None)"
  by pat_completeness auto
termination
  by (relation "measure (\<lambda>(key, bytes). length bytes)")
     (auto simp: parse_record_def Let_def split: list.splits if_splits)

section \<open>The record layer round trip\<close>

lemma seal_seal [simp]: "seal key (seal key bs) = bs"
  by (simp add: seal_def comp_def xor.assoc)

lemma length_seal [simp]: "length (seal key bs) = length bs"
  by (simp add: seal_def)

lemma u16_be_decode:
  assumes "n < 65536"
  shows "unat (hd (u16_be n)) * 256 + unat (hd (tl (u16_be n))) = n"
proof -
  have hi: "n div 256 < 256" using assms by simp
  have "unat (of_nat (n div 256) :: byte) = n div 256" using hi by (simp add: unat_of_nat)
  moreover have "unat (of_nat (n mod 256) :: byte) = n mod 256" by (simp add: unat_of_nat)
  ultimately show ?thesis by (simp add: u16_be_def)
qed

lemma parse_encode_AppData:
  assumes "length bs < 65536"
  shows "parse_record key (encode_record key (AppData bs) @ rest) = Parsed (AppData bs) rest"
proof -
  obtain hi lo where u: "u16_be (length bs) = [hi, lo]" by (simp add: u16_be_def)
  have "unat hi * 256 + unat lo = length bs"
    using u16_be_decode [OF assms] u by simp
  then show ?thesis by (simp add: parse_record_def u Let_def)
qed

lemma parse_encode_CloseNotify:
  "parse_record key (encode_record key CloseNotify @ rest) = Parsed CloseNotify rest"
  by (simp add: parse_record_def)

declare decode_stream.simps [simp del]

lemma parse_record_append:
  "parse_record key bytes = Parsed r rest \<Longrightarrow> parse_record key (bytes @ ys) = Parsed r (rest @ ys)"
  by (auto simp: parse_record_def Let_def split: list.splits if_splits)

lemma decode_stream_Nil [simp]: "decode_stream key [] = Some ([], False)"
  by (simp add: decode_stream.simps)

lemma decode_stream_AppData:
  assumes "parse_record key bytes = Parsed (AppData p) rest"
  shows "decode_stream key bytes =
           (if p = [] then None else map_option (apfst ((@) p)) (decode_stream key rest))"
proof -
  have "bytes \<noteq> []" using assms by (auto simp: parse_record_def)
  then show ?thesis using assms by (simp add: decode_stream.simps [of key bytes] split: option.splits)
qed

lemma decode_stream_CloseNotify:
  assumes "parse_record key bytes = Parsed CloseNotify rest"
  shows "decode_stream key bytes = (if rest = [] then Some ([], True) else None)"
proof -
  have "bytes \<noteq> []" using assms by (auto simp: parse_record_def)
  then show ?thesis using assms by (simp add: decode_stream.simps [of key bytes])
qed

lemma map_option_apfst_ident [simp]: "map_option (apfst (\<lambda>a. a)) x = x"
  by (cases x) auto

lemma decode_stream_append:
  "decode_stream key xs = Some (t, False) \<Longrightarrow>
   decode_stream key (xs @ ys) = map_option (apfst ((@) t)) (decode_stream key ys)"
proof (induction key xs arbitrary: t rule: decode_stream.induct)
  case (1 key bytes)
  show ?case
  proof (cases "bytes = []")
    case True
    with "1.prems" show ?thesis by simp
  next
    case False
    with "1.prems" obtain p rest t' where P: "parse_record key bytes = Parsed (AppData p) rest"
      and p: "p \<noteq> []" and d: "decode_stream key rest = Some (t', False)" and t: "t = p @ t'"
      by (auto simp: decode_stream.simps [of key bytes]
          split: parse_result.splits tls_record.splits if_splits option.splits)
    have IH: "decode_stream key (rest @ ys) = map_option (apfst ((@) t')) (decode_stream key ys)"
      using "1.IH" [OF False P refl p] d by blast
    have "decode_stream key (bytes @ ys) = map_option (apfst ((@) p)) (decode_stream key (rest @ ys))"
      using decode_stream_AppData [OF parse_record_append [OF P]] p by simp
    with IH t show ?thesis by (cases "decode_stream key ys") auto
  qed
qed

lemma decode_stream_record:
  "p \<noteq> [] \<Longrightarrow> length p < 65536 \<Longrightarrow> decode_stream key (encode_record key (AppData p)) = Some (p, False)"
  using decode_stream_AppData [OF parse_encode_AppData [of p key "[]", simplified]] by simp

lemma decode_stream_close:
  "decode_stream key (encode_record key CloseNotify) = Some ([], True)"
  using decode_stream_CloseNotify [OF parse_encode_CloseNotify [of key "[]", simplified]] by simp

lemma parse_record_AppData_length:
  "parse_record key bytes = Parsed (AppData p) rest \<Longrightarrow> length p + length rest + 3 \<le> length bytes"
  by (auto simp: parse_record_def Let_def split: list.splits if_splits)

end
