(* ===== verification/Tls_Model.thy ===== *)
theory Tls_Model
  imports Tcp_Model Tls_Record
begin

text \<open>
  A model of the secure transport \<open>StreamType::Tls\<close> wraps: tokio-tls's
  \<open>TlsStream<TcpStream>\<close>, an established session over a connected \<open>TcpStream\<close>.
  Library code the repository only calls, modelled from the spec: application bytes
  travel as records on the socket's byte stream, a secure-channel failure surfaces as an
  ordinary \<open>io::Error\<close>, and shutdown sends the channel's close notification before the
  socket's write half is closed.

  The records on the wire are those of \<open>Tls_Record\<close>. The lemmas show that the
  session keeps every contract of the interface, how one record is written, read and
  closed (C12), and that the session keeps its send-buffer accounting and never marks
  the close notification sent while the socket's write half is open
  (\<open>tls_keeps_sound\<close>).

  Simplifications, stated once: a record is written to the socket whole or not at all
  (OpenSSL buffers a partly written record internally; here the call would-blocks until
  the send buffer has room), and reading pulls every byte the socket has queued.
  \<open>tokio-tls\<close> does not override \<open>read_buf\<close>, \<open>write_buf\<close> or
  \<open>prepare_uninitialized_buffer\<close>, so the trait defaults apply: the buffer is zeroed.
\<close>

section \<open>The session\<close>

text \<open>
  The session state: the socket, the session key, decrypted bytes not yet returned,
  received bytes not yet forming a whole record, and whether a close notification has
  been received and sent.
\<close>

record tls_sock =
  tls_tcp :: tcp_sock
  tls_key :: byte
  tls_plain :: "byte list"
  tls_cipher :: "byte list"
  tls_peer_closed :: bool
  tls_close_sent :: bool

definition tls_connected :: "nat \<Rightarrow> byte \<Rightarrow> tls_sock" where
  "tls_connected room key =
     \<lparr>tls_tcp = tcp_connected room, tls_key = key, tls_plain = [], tls_cipher = [],
      tls_peer_closed = False, tls_close_sent = False\<rparr>"

text \<open>
  Writing bytes that must reach the socket whole (a record): \<open>WouldBlock\<close>, with a
  write wake-up registered, while the send buffer has less room than the record;
  otherwise the socket's own \<open>write\<close> decides.
\<close>

definition tcp_write_all :: "tcp_sock \<Rightarrow> byte list \<Rightarrow> unit io_result \<times> tcp_sock" where
  "tcp_write_all t bytes =
     (if sock_err t = None \<and> \<not> wr_closed t \<and> tx_room t < length bytes
      then (Inl WouldBlock, t\<lparr>write_waiter := True\<rparr>)
      else case tcp_write t bytes of
        (Inl e, t') \<Rightarrow> (Inl e, t')
      | (Inr _, t') \<Rightarrow> (Inr (), t'))"

text \<open>Pulling what the socket has queued into the record buffer.\<close>

definition tls_pull :: "tls_sock \<Rightarrow> nat io_result \<times> tls_sock" where
  "tls_pull s =
     (case tcp_read (tls_tcp s) (replicate (max 1 (length (rx_data (tls_tcp s)))) 0) of
        (r, b, t) \<Rightarrow> (r, s\<lparr>tls_tcp := t, tls_cipher := tls_cipher s @ take (res_count r) b\<rparr>))"

text \<open>Handing decrypted bytes to the caller's buffer.\<close>

definition tls_take_plain :: "tls_sock \<Rightarrow> byte list \<Rightarrow> nat io_result \<times> byte list \<times> tls_sock" where
  "tls_take_plain s buf =
     (let n = min (length buf) (length (tls_plain s))
      in (Inr n, copy_prefix (tls_plain s) buf, s\<lparr>tls_plain := drop n (tls_plain s)\<rparr>))"

text \<open>
  Opening the next whole record in the record buffer: \<open>None\<close> if it is not complete;
  a malformed record is a channel failure reported as \<open>InvalidData\<close>.
\<close>

definition tls_open :: "tls_sock \<Rightarrow> byte list \<Rightarrow> (nat io_result \<times> byte list \<times> tls_sock) option" where
  "tls_open s buf =
     (case parse_record (tls_key s) (tls_cipher s) of
        Parsed (AppData p) rest \<Rightarrow> Some (tls_take_plain (s\<lparr>tls_plain := p, tls_cipher := rest\<rparr>) buf)
      | Parsed CloseNotify rest \<Rightarrow> Some (Inr 0, buf, s\<lparr>tls_peer_closed := True, tls_cipher := rest\<rparr>)
      | Malformed \<Rightarrow> Some (Inl InvalidData, buf, s)
      | Incomplete \<Rightarrow> None)"

text \<open>
  \<open>read\<close>: decrypted bytes first; after the peer's close notification, end of stream;
  otherwise open a buffered record, or pull from the socket and try again. A socket at
  end of stream before a close notification is a truncation attack and fails with
  \<open>UnexpectedEof\<close>; a socket with nothing more queued answers \<open>WouldBlock\<close> and
  registers the wake-up (the second pull).
\<close>

definition tls_read :: "tls_sock \<Rightarrow> byte list \<Rightarrow> nat io_result \<times> byte list \<times> tls_sock" where
  "tls_read s buf =
     (if tls_plain s \<noteq> [] then tls_take_plain s buf
      else if tls_peer_closed s then (Inr 0, buf, s)
      else case tls_open s buf of
        Some res \<Rightarrow> res
      | None \<Rightarrow>
          (case tls_pull s of
             (Inl e, s') \<Rightarrow> (Inl e, buf, s')
           | (Inr m, s') \<Rightarrow>
               if m = 0 then (Inl UnexpectedEof, buf, s')
               else case tls_open s' buf of
                 Some res \<Rightarrow> res
               | None \<Rightarrow>
                   (case tls_pull s' of
                      (Inl e, s'') \<Rightarrow> (Inl e, buf, s'')
                    | (Inr _, s'') \<Rightarrow> (Inl UnexpectedEof, buf, s''))))"

text \<open>
  \<open>write\<close>: after the close notification was sent, \<open>BrokenPipe\<close>; otherwise up to
  one fragment is sealed into a record and written whole.
\<close>

definition tls_write :: "tls_sock \<Rightarrow> byte list \<Rightarrow> nat io_result \<times> tls_sock" where
  "tls_write s buf =
     (if tls_close_sent s then (Inl BrokenPipe, s)
      else if buf = [] then (Inr 0, s)
      else
        let n = min (length buf) max_fragment
        in case tcp_write_all (tls_tcp s) (encode_record (tls_key s) (AppData (take n buf))) of
             (Inl e, t) \<Rightarrow> (Inl e, s\<lparr>tls_tcp := t\<rparr>)
           | (Inr _, t) \<Rightarrow> (Inr n, s\<lparr>tls_tcp := t\<rparr>))"

definition tls_flush :: "tls_sock \<Rightarrow> unit io_result \<times> tls_sock" where
  "tls_flush s = (case tcp_flush (tls_tcp s) of (r, t) \<Rightarrow> (r, s\<lparr>tls_tcp := t\<rparr>))"

text \<open>
  \<open>shutdown\<close> (tokio-tls: \<open>try_nb!(self.inner.shutdown())\<close>, then the socket's
  shutdown): send the close notification once, then close the socket's write half. A
  send buffer without room makes the call \<open>NotReady\<close>, to be driven again.
\<close>

definition tls_shutdown :: "tls_sock \<Rightarrow> unit poll \<times> tls_sock" where
  "tls_shutdown s =
     (if tls_close_sent s
      then (case tcp_shutdown (tls_tcp s) of (p, t) \<Rightarrow> (p, s\<lparr>tls_tcp := t\<rparr>))
      else case tcp_write_all (tls_tcp s) (encode_record (tls_key s) CloseNotify) of
        (Inl e, t) \<Rightarrow> (if e = WouldBlock then Inr NotReady else Inl e, s\<lparr>tls_tcp := t\<rparr>)
      | (Inr _, t) \<Rightarrow>
          (case tcp_shutdown t of (p, t') \<Rightarrow> (p, s\<lparr>tls_tcp := t', tls_close_sent := True\<rparr>)))"

definition tls_prepare_uninitialized_buffer :: "tls_sock \<Rightarrow> byte list \<Rightarrow> bool \<times> byte list" where
  "tls_prepare_uninitialized_buffer s buf = default_prepare_uninitialized_buffer buf"

definition tls_impl :: "tls_sock io_impl" where
  "tls_impl =
     \<lparr>io_read = tls_read, io_write = tls_write, io_flush = tls_flush,
      io_prepare_uninitialized_buffer = tls_prepare_uninitialized_buffer,
      io_read_buf = default_read_buf tls_read tls_prepare_uninitialized_buffer,
      io_shutdown = tls_shutdown, io_write_buf = default_write_buf tls_write\<rparr>"

text \<open>What \<open>read\<close> promises of one result: the slice keeps its length and the count fits in it.\<close>

definition read_ok :: "byte list \<Rightarrow> nat io_result \<times> byte list \<times> 's \<Rightarrow> bool" where
  "read_ok buf res \<longleftrightarrow> length (fst (snd res)) = length buf \<and> res_count (fst res) \<le> length buf"

text \<open>
  The session's own invariant: the socket's send buffer is accounted for (room plus
  queued bytes is the capacity \<open>cap\<close>), and the close notification is marked sent only
  once the socket's write half is closed.
\<close>

definition tls_sound :: "nat \<Rightarrow> tls_sock \<Rightarrow> bool" where
  "tls_sound cap s \<longleftrightarrow> tx_accounted cap (tls_tcp s) \<and> (tls_close_sent s \<longrightarrow> wr_closed (tls_tcp s))"

section \<open>The session keeps the interface contracts\<close>

lemma tls_impl_sel [simp]:
  "io_read tls_impl = tls_read"
  "io_write tls_impl = tls_write"
  "io_flush tls_impl = tls_flush"
  "io_prepare_uninitialized_buffer tls_impl = tls_prepare_uninitialized_buffer"
  "io_read_buf tls_impl = default_read_buf tls_read tls_prepare_uninitialized_buffer"
  "io_shutdown tls_impl = tls_shutdown"
  "io_write_buf tls_impl = default_write_buf tls_write"
  by (simp_all add: tls_impl_def)

lemma read_ok_take_plain: "read_ok buf (tls_take_plain s buf)"
  by (simp add: read_ok_def tls_take_plain_def Let_def)

lemma read_ok_open: "tls_open s buf = Some res \<Longrightarrow> read_ok buf res"
  by (auto simp: tls_open_def read_ok_def read_ok_take_plain [unfolded read_ok_def]
           split: parse_result.splits tls_record.splits)

lemma read_ok_tls_read: "read_ok buf (tls_read s buf)"
proof -
  have base: "read_ok buf (Inl e, buf, t)" "read_ok buf (Inr 0, buf, t)" for e and t :: tls_sock
    by (simp_all add: read_ok_def)
  show ?thesis
    unfolding tls_read_def
    using base read_ok_take_plain read_ok_open
    by (auto split: option.splits prod.splits sum.splits)
qed

lemma tls_read_contract: "read_contract tls_impl"
  unfolding read_contract_def using read_ok_tls_read unfolding read_ok_def by simp

lemma tls_write_contract: "write_contract tls_impl"
  unfolding write_contract_def
  by (simp add: tls_write_def Let_def split: prod.splits sum.splits)

lemma tls_uninit_sound: "uninit_sound tls_impl"
  unfolding uninit_sound_def
  by (simp add: tls_prepare_uninitialized_buffer_def default_prepare_uninitialized_buffer_def)

lemma tls_read_buf_safe: "read_buf_safe tls_impl"
  by (rule default_read_buf_is_safe) (simp_all add: tls_uninit_sound tls_read_contract)

lemma tls_buf_contracts: "read_buf_contract tls_impl \<and> write_buf_contract tls_impl"
  by (simp add: default_read_buf_contract default_write_buf_contract tls_read_contract
      tls_write_contract tls_uninit_sound)

section \<open>Writing, reading and shutting down a session\<close>

lemma tls_write_fresh:
  assumes "data \<noteq> []" and "length data \<le> max_fragment" and "length data + 3 \<le> room"
  shows "tls_write (tls_connected room key) data =
    (Inr (length data), (tls_connected room key)\<lparr>tls_tcp := (tcp_connected room)\<lparr>
        tx_data := encode_record key (AppData data), tx_room := room - (length data + 3)\<rparr>\<rparr>)"
proof -
  have len: "length (encode_record key (AppData data)) = length data + 3"
    by (simp add: u16_be_def)
  have "0 < room" using assms(3) by simp
  with assms len show ?thesis
    by (simp add: tls_write_def tls_connected_def tcp_write_all_def tcp_write_def
        tcp_write_ready_def tcp_connected_def Let_def min_def)
qed

lemma tls_read_one_record:
  assumes "tls_plain s = []" "tls_cipher s = []" "\<not> tls_peer_closed s"
    and "sock_err (tls_tcp s) = None"
    and "rx_data (tls_tcp s) = encode_record (tls_key s) (AppData data)"
    and "length data < 65536" "data \<noteq> []"
  shows "fst (tls_read s buf) = Inr (min (length buf) (length data))
       \<and> take (min (length buf) (length data)) (fst (snd (tls_read s buf))) = take (length buf) data"
proof -
  let ?enc = "encode_record (tls_key s) (AppData data)"
  have p0: "parse_record (tls_key s) [] = Incomplete" by (simp add: parse_record_def)
  have pe: "parse_record (tls_key s) ?enc = Parsed (AppData data) []"
    using parse_encode_AppData [OF assms(6), of "tls_key s" "[]"] by simp
  have ne: "?enc \<noteq> []" by simp
  have pull: "tls_pull s = (Inr (length ?enc), s\<lparr>tls_tcp := (tls_tcp s)\<lparr>rx_data := []\<rparr>, tls_cipher := ?enc\<rparr>)"
    using assms(2,4,5) ne
    by (simp add: tls_pull_def tcp_read_shape tcp_read_ready_def copy_prefix_def del: encode_record.simps)
  show ?thesis
    using assms(1,2,3) p0 pe pull ne
    by (simp add: tls_read_def tls_open_def tls_take_plain_def copy_prefix_def min_def Let_def
        del: encode_record.simps)
qed

lemma tls_read_delivered:
  assumes "data \<noteq> []" and "length data < 65536" and "length data \<le> n"
  shows "fst (tls_read ((tls_connected room key)\<lparr>tls_tcp := (tcp_connected room)\<lparr>
              rx_data := encode_record key (AppData data)\<rparr>\<rparr>) (replicate n 0)) = Inr (length data)
       \<and> take (length data) (fst (snd (tls_read ((tls_connected room key)\<lparr>tls_tcp := (tcp_connected room)\<lparr>
              rx_data := encode_record key (AppData data)\<rparr>\<rparr>) (replicate n 0)))) = data"
proof -
  have "min (length (replicate n (0::byte))) (length data) = length data" using assms(3) by simp
  moreover have "take (length (replicate n (0::byte))) data = data" using assms(3) by simp
  moreover have "fst (tls_read ((tls_connected room key)\<lparr>tls_tcp := (tcp_connected room)\<lparr>
              rx_data := encode_record key (AppData data)\<rparr>\<rparr>) (replicate n 0))
           = Inr (min (length (replicate n (0::byte))) (length data))
         \<and> take (min (length (replicate n (0::byte))) (length data))
             (fst (snd (tls_read ((tls_connected room key)\<lparr>tls_tcp := (tcp_connected room)\<lparr>
              rx_data := encode_record key (AppData data)\<rparr>\<rparr>) (replicate n 0))))
           = take (length (replicate n (0::byte))) data"
    by (rule tls_read_one_record)
       (simp_all add: assms(1,2) tls_connected_def tcp_connected_def del: encode_record.simps)
  ultimately show ?thesis by simp
qed

lemma tls_shutdown_fresh:
  assumes "\<not> tls_close_sent s" and "\<not> wr_closed (tls_tcp s)"
  shows "tls_shutdown s =
    (case sock_err (tls_tcp s) of
       Some e \<Rightarrow> (if e = WouldBlock then Inr NotReady else Inl e, s)
     | None \<Rightarrow>
         if tx_room (tls_tcp s) < 5
         then (Inr NotReady, s\<lparr>tls_tcp := (tls_tcp s)\<lparr>write_waiter := True\<rparr>\<rparr>)
         else (Inr (Ready ()),
               s\<lparr>tls_tcp := (tls_tcp s)\<lparr>tx_data := tx_data (tls_tcp s) @ encode_record (tls_key s) CloseNotify,
                                     tx_room := tx_room (tls_tcp s) - 5, wr_closed := True\<rparr>,
                 tls_close_sent := True\<rparr>))"
  using assms
  by (auto simp: tls_shutdown_def tcp_write_all_def tcp_write_def tcp_write_ready_def
      tcp_shutdown_def Let_def split: option.splits)

section \<open>What each operation changes\<close>

lemma tcp_write_all_tx:
  assumes "tcp_write_all t bs = (r, t')"
  shows "(r = Inr () \<longrightarrow> tx_data t' = tx_data t @ bs \<and> sock_err t = None \<and> \<not> wr_closed t)
       \<and> (r \<noteq> Inr () \<longrightarrow> tx_data t' = tx_data t) \<and> sock_err t' = sock_err t"
  using assms
  by (auto simp: tcp_write_all_def tcp_write_def tcp_write_ready_def Let_def min_def
      split: if_splits option.splits sum.splits prod.splits)

lemma tls_pull_keeps:
  assumes "tls_pull s = (r, s')"
  shows "tls_cipher s' @ rx_data (tls_tcp s') = tls_cipher s @ rx_data (tls_tcp s)
       \<and> tls_plain s' = tls_plain s \<and> tls_peer_closed s' = tls_peer_closed s \<and> tls_key s' = tls_key s"
  using assms by (auto simp: tls_pull_def tcp_read_shape copy_prefix_def split: if_splits)

lemma tls_read_keeps:
  "tls_read s buf = (r, buf', s') \<Longrightarrow>
   tls_key s' = tls_key s \<and> tls_close_sent s' = tls_close_sent s \<and> tx_data (tls_tcp s') = tx_data (tls_tcp s)
   \<and> tx_room (tls_tcp s') = tx_room (tls_tcp s) \<and> wr_closed (tls_tcp s') = wr_closed (tls_tcp s)"
  by (auto simp: tls_read_def tls_take_plain_def tls_open_def tls_pull_def tcp_read_shape Let_def
      split: if_splits option.splits prod.splits sum.splits parse_result.splits tls_record.splits)

lemma tcp_write_all_accounted:
  "tcp_write_all t b = (r, t') \<Longrightarrow> tx_accounted cap t \<Longrightarrow>
   tx_accounted cap t' \<and> wr_closed t' = wr_closed t \<and> sock_err t' = sock_err t"
  by (auto simp: tcp_write_all_def tcp_write_def tx_accounted_def Let_def split: if_splits option.splits)

lemma tls_write_sound: "tls_write s b = (r, s') \<Longrightarrow> tls_sound cap s \<Longrightarrow> tls_sound cap s'"
  by (auto simp: tls_write_def tls_sound_def Let_def dest: tcp_write_all_accounted split: if_splits prod.splits sum.splits)

lemma tls_shutdown_sound:
  assumes call: "tls_shutdown s = (p, s')" and sound: "tls_sound cap s"
  shows "tls_sound cap s'"
proof (cases "tls_close_sent s")
  case True
  then show ?thesis using call sound
    by (auto simp: tls_shutdown_def tls_sound_def tcp_shutdown_def tx_accounted_def split: option.splits)
next
  case False
  let ?rec = "encode_record (tls_key s) CloseNotify"
  obtain rw t where w: "tcp_write_all (tls_tcp s) ?rec = (rw, t)" by (cases "tcp_write_all (tls_tcp s) ?rec")
  have acc: "tx_accounted cap t"
    using tcp_write_all_accounted [OF w] sound by (simp add: tls_sound_def)
  note tx = tcp_write_all_tx [OF w]
  show ?thesis using call False w acc tx
    by (cases rw) (auto simp: tls_shutdown_def tls_sound_def tcp_shutdown_def tx_accounted_def
        simp del: encode_record.simps)
qed

lemma tls_keeps_sound: "keeps tls_impl (tls_sound cap)"
  unfolding keeps_def
proof (intro allI impI)
  fix s op assume a: "tls_sound cap s"
  have rd: "tls_sound cap s'" if "tls_read s b = (r, b', s')" for b r b' s'
    using tls_read_keeps [OF that] a by (simp add: tls_sound_def tx_accounted_def)
  show "tls_sound cap (snd (exec_op tls_impl s op))"
  proof (cases op)
    case (OpRead n)
    then show ?thesis using rd by (auto split: prod.splits)
  next
    case (OpWrite b)
    then show ?thesis using a tls_write_sound by (auto split: prod.splits)
  next
    case OpFlush
    then show ?thesis using a by (auto simp: tls_flush_def tcp_flush_def tls_sound_def tx_accounted_def)
  next
    case (OpReadBuf m)
    then show ?thesis using a rd
      by (auto simp: default_read_buf_def Let_def split: prod.splits sum.splits if_splits)
  next
    case (OpWriteBuf c)
    then show ?thesis using a tls_write_sound
      by (auto simp: default_write_buf_def Let_def split: prod.splits sum.splits if_splits)
  next
    case OpShutdown
    then show ?thesis using a tls_shutdown_sound by (auto split: prod.splits)
  qed
qed

text \<open>C12. Close notification before close: a shutdown of a secure StreamType closes the socket's write half only after the close notification record has been queued behind everything sent before, and completes in one call when the send buffer has room for it; a shutdown of a plain StreamType closes the write half directly with no extra bytes.\<close>

theorem st_shutdown_close_notify:
  assumes fresh: "\<not> tls_close_sent s" "\<not> wr_closed (tls_tcp s)"
    and call: "st_shutdown tcp_impl tls_impl (from_tls s) = (p, st')"
  shows "(\<exists>s'. st' = from_tls s'
            \<and> (wr_closed (tls_tcp s') \<longrightarrow>
                 tls_close_sent s' \<and> tx_data (tls_tcp s') = tx_data (tls_tcp s) @ encode_record (tls_key s) CloseNotify)
            \<and> (sock_err (tls_tcp s) = None \<and> 5 \<le> tx_room (tls_tcp s) \<longrightarrow> p = Inr (Ready ()) \<and> wr_closed (tls_tcp s')))
       \<and> (sock_err t = None \<longrightarrow> st_shutdown tcp_impl tls_impl (from_tcp t) = (Inr (Ready ()), from_tcp (t\<lparr>wr_closed := True\<rparr>)))"
proof
  have eq: "(p, st') = apsnd from_tls (tls_shutdown s)"
    using call by (simp add: from_tls_Tls)
  show "\<exists>s'. st' = from_tls s'
            \<and> (wr_closed (tls_tcp s') \<longrightarrow>
                 tls_close_sent s' \<and> tx_data (tls_tcp s') = tx_data (tls_tcp s) @ encode_record (tls_key s) CloseNotify)
            \<and> (sock_err (tls_tcp s) = None \<and> 5 \<le> tx_room (tls_tcp s) \<longrightarrow> p = Inr (Ready ()) \<and> wr_closed (tls_tcp s'))"
    using eq fresh by (auto simp: tls_shutdown_fresh split: option.splits if_splits)
next
  show "sock_err t = None \<longrightarrow> st_shutdown tcp_impl tls_impl (from_tcp t) = (Inr (Ready ()), from_tcp (t\<lparr>wr_closed := True\<rparr>))"
    by (simp add: from_tcp_Tcp tcp_shutdown_def)
qed

end
