(* ===== verification/Connection.thy ===== *)
theory Connection
  imports Tls_Model
begin

text \<open>
  The composition of the components: a client \<open>StreamType\<close>, the network, and a
  server \<open>StreamType\<close> of the same variant, over the transport models of
  \<open>Tcp_Model\<close> and \<open>Tls_Model\<close>. The spec's promise that both variants carry an
  ordered byte stream is the abstract pipe \<open>pipe_step\<close>; \<open>conn_abs\<close> maps a
  connection to it (for the secure variant, by decoding the records in flight with
  \<open>Tls_Record.decode_stream\<close>). The refinement lemma for one step
  (\<open>conn_step_refines\<close>) rests on one lemma per operation and variant; C8 lifts it
  to runs and C9 derives that the bytes read are the bytes written, in order.
\<close>

section \<open>Two streams and the network between them\<close>

text \<open>
  A connection from the client's \<open>StreamType\<close> to the server's: the client writes and
  shuts down, the network delivers, the server reads. \<open>st_deliver\<close> moves what the
  client's socket has sent into the server's (for a secure stream, its records);
  streams of different variants exchange nothing.
\<close>

type_synonym stream = "(tcp_sock, tls_sock) StreamType"

fun st_deliver :: "stream \<Rightarrow> stream \<Rightarrow> stream \<times> stream \<times> bool" where
  "st_deliver (Tcp a) (Tcp b) = (case tcp_deliver a b of (a', b', w) \<Rightarrow> (Tcp a', Tcp b', w))"
| "st_deliver (Tls a) (Tls b) =
     (case tcp_deliver (tls_tcp a) (tls_tcp b) of
        (a', b', w) \<Rightarrow> (Tls (a\<lparr>tls_tcp := a'\<rparr>), Tls (b\<lparr>tls_tcp := b'\<rparr>), w))"
| "st_deliver x y = (x, y, False)"

text \<open>One call of the protocol layer on the connection, and what it observes.\<close>

datatype conn_op = CWrite "byte list" | CDeliver | CRead nat | CShutdown

datatype conn_out =
    OWrote "nat io_result" | ODelivered | OGot "nat io_result" "byte list" | OShut "unit poll"

fun conn_step :: "conn_op \<Rightarrow> stream \<times> stream \<Rightarrow> conn_out \<times> stream \<times> stream" where
  "conn_step (CWrite data) (c, s) =
     (case st_write tcp_impl tls_impl c data of (r, c') \<Rightarrow> (OWrote r, c', s))"
| "conn_step CDeliver (c, s) = (case st_deliver c s of (c', s', _) \<Rightarrow> (ODelivered, c', s'))"
| "conn_step (CRead n) (c, s) =
     (case st_read tcp_impl tls_impl s (replicate n 0) of
        (r, buf, s') \<Rightarrow> (OGot r (take (res_count r) buf), c, s'))"
| "conn_step CShutdown (c, s) =
     (case st_shutdown tcp_impl tls_impl c of (p, c') \<Rightarrow> (OShut p, c', s))"

fun conn_run :: "conn_op list \<Rightarrow> stream \<times> stream \<Rightarrow> conn_out list \<times> stream \<times> stream" where
  "conn_run [] cs = ([], cs)"
| "conn_run (op # ops) cs =
     (case conn_step op cs of (out, cs') \<Rightarrow> (case conn_run ops cs' of (outs, cs'') \<Rightarrow> (out # outs, cs'')))"

section \<open>The abstract byte pipe\<close>

text \<open>
  What a connection promises, independent of the variant: an ordered pipe of bytes with
  a closed flag. A write that succeeds appends the accepted prefix (and never succeeds
  once the pipe is closed); a read that succeeds takes a prefix of the pipe, and returns
  0 into a non-empty buffer only when the pipe is empty and closed; failures, delivery
  and a pending shutdown leave the pipe as it is; a completed shutdown closes it.
\<close>

record pipe =
  p_bytes :: "byte list"
  p_closed :: bool

inductive pipe_step :: "pipe \<Rightarrow> conn_op \<Rightarrow> conn_out \<Rightarrow> pipe \<Rightarrow> bool" where
  write_ok: "\<not> p_closed p \<Longrightarrow> n \<le> length data \<Longrightarrow>
     pipe_step p (CWrite data) (OWrote (Inr n)) (p\<lparr>p_bytes := p_bytes p @ take n data\<rparr>)"
| write_err: "pipe_step p (CWrite data) (OWrote (Inl e)) p"
| deliver: "pipe_step p CDeliver ODelivered p"
| read_ok: "n \<le> k \<Longrightarrow> n \<le> length (p_bytes p) \<Longrightarrow> (n = 0 \<and> 0 < k \<longrightarrow> p_bytes p = [] \<and> p_closed p) \<Longrightarrow>
     pipe_step p (CRead k) (OGot (Inr n) (take n (p_bytes p))) (p\<lparr>p_bytes := drop n (p_bytes p)\<rparr>)"
| read_err: "pipe_step p (CRead k) (OGot (Inl e) []) p"
| shut_ok: "pipe_step p CShutdown (OShut (Inr (Ready ()))) (p\<lparr>p_closed := True\<rparr>)"
| shut_wait: "pipe_step p CShutdown (OShut (Inr NotReady)) p"
| shut_err: "pipe_step p CShutdown (OShut (Inl e)) p"

code_pred pipe_step .

section \<open>The refinement mapping\<close>

text \<open>
  The server's side of a secure connection with the client's unsent bytes \<open>ys\<close>:
  \<open>srv_ok\<close> says that the records still to be opened (buffered, queued at the
  socket, still in the client's send buffer) form a well-formed stream, closed exactly
  when the client sent its close notification; \<open>srv_bytes\<close> is the plaintext still
  to be read. \<open>conn_inv\<close> and \<open>conn_abs\<close> are the invariant and the mapping to the
  pipe for both variants.
\<close>

definition srv_ok :: "tls_sock \<Rightarrow> byte list \<Rightarrow> bool \<Rightarrow> bool" where
  "srv_ok s ys cl \<longleftrightarrow>
     (if tls_peer_closed s
      then tls_plain s = [] \<and> tls_cipher s @ rx_data (tls_tcp s) @ ys = [] \<and> cl
      else (case decode_stream (tls_key s) (tls_cipher s @ rx_data (tls_tcp s) @ ys) of
              Some (_, c) \<Rightarrow> c = cl
            | None \<Rightarrow> False))"

definition srv_bytes :: "tls_sock \<Rightarrow> byte list \<Rightarrow> byte list" where
  "srv_bytes s ys =
     tls_plain s @ (case decode_stream (tls_key s) (tls_cipher s @ rx_data (tls_tcp s) @ ys) of
                      Some (t, _) \<Rightarrow> t
                    | None \<Rightarrow> [])"

fun conn_inv :: "stream \<times> stream \<Rightarrow> bool" where
  "conn_inv (Tcp c, Tcp s) \<longleftrightarrow> (rx_eof s \<longrightarrow> wr_closed c \<and> tx_data c = [])"
| "conn_inv (Tls c, Tls s) \<longleftrightarrow>
     tls_key c = tls_key s \<and> srv_ok s (tx_data (tls_tcp c)) (tls_close_sent c)"
| "conn_inv _ \<longleftrightarrow> False"

fun conn_abs :: "stream \<times> stream \<Rightarrow> pipe" where
  "conn_abs (Tcp c, Tcp s) = \<lparr>p_bytes = rx_data s @ tx_data c, p_closed = wr_closed c\<rparr>"
| "conn_abs (Tls c, Tls s) = \<lparr>p_bytes = srv_bytes s (tx_data (tls_tcp c)), p_closed = tls_close_sent c\<rparr>"
| "conn_abs _ = \<lparr>p_bytes = [], p_closed = False\<rparr>"

text \<open>The pipe seen from the server of a secure connection.\<close>

abbreviation srv_pipe :: "tls_sock \<Rightarrow> byte list \<Rightarrow> bool \<Rightarrow> pipe" where
  "srv_pipe s ys cl \<equiv> \<lparr>p_bytes = srv_bytes s ys, p_closed = cl\<rparr>"

text \<open>A run of the pipe.\<close>

inductive pipe_steps :: "pipe \<Rightarrow> conn_op list \<Rightarrow> conn_out list \<Rightarrow> pipe \<Rightarrow> bool" where
  nil: "pipe_steps p [] [] p"
| cons: "pipe_step p op out p1 \<Longrightarrow> pipe_steps p1 ops outs p' \<Longrightarrow> pipe_steps p (op # ops) (out # outs) p'"

text \<open>The bytes the writes of a run had accepted, and the bytes its reads returned.\<close>

fun sent :: "conn_op list \<Rightarrow> conn_out list \<Rightarrow> byte list" where
  "sent (CWrite data # ops) (OWrote (Inr n) # outs) = take n data @ sent ops outs"
| "sent (_ # ops) (_ # outs) = sent ops outs"
| "sent _ _ = []"

fun got :: "conn_out list \<Rightarrow> byte list" where
  "got [] = []"
| "got (OGot r bs # outs) = bs @ got outs"
| "got (_ # outs) = got outs"

text \<open>Freshly connected plain and secure connections.\<close>

definition conn_plain :: "nat \<Rightarrow> stream \<times> stream" where
  "conn_plain room = (from_tcp (tcp_connected room), from_tcp (tcp_connected room))"

definition conn_secure :: "nat \<Rightarrow> byte \<Rightarrow> stream \<times> stream" where
  "conn_secure room key = (from_tls (tls_connected room key), from_tls (tls_connected room key))"

section \<open>One step refines the pipe\<close>

text \<open>The rules of the pipe in the form the step lemmas use them.\<close>

lemma read_okI:
  assumes "n \<le> k" "n \<le> length bs" "n = 0 \<and> 0 < k \<longrightarrow> bs = [] \<and> cl"
    and "bs_read = take n bs" "bs' = drop n bs"
  shows "pipe_step \<lparr>p_bytes = bs, p_closed = cl\<rparr> (CRead k) (OGot (Inr n) bs_read) \<lparr>p_bytes = bs', p_closed = cl\<rparr>"
  using pipe_step.read_ok [of n k "\<lparr>p_bytes = bs, p_closed = cl\<rparr>"] assms by simp

lemma read_errI:
  "bs' = bs \<Longrightarrow> pipe_step \<lparr>p_bytes = bs, p_closed = cl\<rparr> (CRead k) (OGot (Inl e) []) \<lparr>p_bytes = bs', p_closed = cl\<rparr>"
  by (simp add: pipe_step.read_err)

lemma write_okI:
  "\<not> cl \<Longrightarrow> n \<le> length data \<Longrightarrow> bs' = bs @ take n data \<Longrightarrow>
   pipe_step \<lparr>p_bytes = bs, p_closed = cl\<rparr> (CWrite data) (OWrote (Inr n)) \<lparr>p_bytes = bs', p_closed = cl\<rparr>"
  using pipe_step.write_ok [of "\<lparr>p_bytes = bs, p_closed = cl\<rparr>" n data] by simp

lemma write_errI:
  "bs' = bs \<Longrightarrow> cl' = cl \<Longrightarrow>
   pipe_step \<lparr>p_bytes = bs, p_closed = cl\<rparr> (CWrite data) (OWrote (Inl e)) \<lparr>p_bytes = bs', p_closed = cl'\<rparr>"
  by (simp add: pipe_step.write_err)

lemma shut_okI:
  "bs' = bs \<Longrightarrow> pipe_step \<lparr>p_bytes = bs, p_closed = cl\<rparr> CShutdown (OShut (Inr (Ready ()))) \<lparr>p_bytes = bs', p_closed = True\<rparr>"
  using pipe_step.shut_ok [of "\<lparr>p_bytes = bs, p_closed = cl\<rparr>"] by simp

lemma shut_otherI:
  assumes "p \<noteq> Inr (Ready ())" "bs' = bs" "cl' = cl"
  shows "pipe_step \<lparr>p_bytes = bs, p_closed = cl\<rparr> CShutdown (OShut p) \<lparr>p_bytes = bs', p_closed = cl'\<rparr>"
proof (cases p)
  case (Inl e)
  then show ?thesis using assms(2,3) by (simp add: pipe_step.shut_err)
next
  case (Inr b)
  then show ?thesis using assms by (cases b) (simp_all add: pipe_step.shut_wait)
qed

lemmas pipe_stepI = write_okI write_errI read_okI read_errI shut_okI shut_otherI

lemma srv_view_cong:
  assumes "tls_cipher s' @ rx_data (tls_tcp s') @ ys' = tls_cipher s @ rx_data (tls_tcp s) @ ys"
    and "tls_plain s' = tls_plain s" "tls_peer_closed s' = tls_peer_closed s" "tls_key s' = tls_key s"
  shows "srv_ok s' ys' cl = srv_ok s ys cl \<and> srv_bytes s' ys' = srv_bytes s ys"
  by (simp only: srv_ok_def srv_bytes_def assms)

lemma take_plain_pipe:
  assumes "tls_plain s \<noteq> []" and "tls_take_plain s (replicate k 0) = (r, buf, s')"
    and "srv_ok s ys cl"
  shows "srv_ok s' ys cl
       \<and> pipe_step (srv_pipe s ys cl) (CRead k) (OGot r (take (res_count r) buf)) (srv_pipe s' ys cl)"
proof -
  let ?n = "min k (length (tls_plain s))"
  have r: "r = Inr ?n" and buf: "buf = copy_prefix (tls_plain s) (replicate k 0)"
    and s': "s' = s\<lparr>tls_plain := drop ?n (tls_plain s)\<rparr>"
    using assms(2) by (auto simp: tls_take_plain_def Let_def)
  have got: "take ?n buf = take ?n (srv_bytes s ys)"
    using take_copy_prefix [of "replicate k (0 :: byte)" "tls_plain s"]
    by (simp add: buf srv_bytes_def min_def)
  have "pipe_step (srv_pipe s ys cl) (CRead k) (OGot (Inr ?n) (take ?n buf)) (srv_pipe s' ys cl)"
    by (rule read_okI) (use assms(1) got in \<open>auto simp: s' srv_bytes_def\<close>)
  then show ?thesis using assms(1,3) by (simp add: r s' srv_ok_def)
qed

lemma open_pipe:
  assumes ok: "srv_ok s ys cl" and plain: "tls_plain s = []" and open_: "\<not> tls_peer_closed s"
    and call: "tls_open s (replicate k 0) = Some (r, buf, s')"
  shows "srv_ok s' ys cl
       \<and> pipe_step (srv_pipe s ys cl) (CRead k) (OGot r (take (res_count r) buf)) (srv_pipe s' ys cl)"
proof -
  let ?key = "tls_key s" and ?tail = "rx_data (tls_tcp s) @ ys"
  have stream: "tls_cipher s @ rx_data (tls_tcp s) @ ys = tls_cipher s @ ?tail" by simp
  consider (app) p rest where "parse_record ?key (tls_cipher s) = Parsed (AppData p) rest"
    | (close) rest where "parse_record ?key (tls_cipher s) = Parsed CloseNotify rest"
    | (bad) "parse_record ?key (tls_cipher s) = Malformed"
    using call by (cases "parse_record ?key (tls_cipher s)") (auto simp: tls_open_def split: tls_record.splits)
  then show ?thesis
  proof cases
    case (app p rest)
    have d: "decode_stream ?key (tls_cipher s @ ?tail) =
               (if p = [] then None else map_option (apfst ((@) p)) (decode_stream ?key (rest @ ?tail)))"
      using decode_stream_AppData [OF parse_record_append [OF app]] .
    obtain t' where p: "p \<noteq> []" and t': "decode_stream ?key (rest @ ?tail) = Some (t', cl)"
      using ok plain open_ d by (auto simp: srv_ok_def split: if_splits option.splits)
    let ?s0 = "s\<lparr>tls_plain := p, tls_cipher := rest\<rparr>"
    have s0: "srv_ok ?s0 ys cl" "srv_bytes ?s0 ys = srv_bytes s ys"
      using open_ plain d p t' by (simp_all add: srv_ok_def srv_bytes_def)
    have "tls_take_plain ?s0 (replicate k 0) = (r, buf, s')"
      using call app by (simp add: tls_open_def)
    from take_plain_pipe [OF _ this s0(1)] p s0(2) show ?thesis by simp
  next
    case (close rest)
    have dc: "decode_stream ?key (tls_cipher s @ ?tail) = (if rest @ ?tail = [] then Some ([], True) else None)"
      using decode_stream_CloseNotify [OF parse_record_append [OF close]] .
    then have e: "rest @ ?tail = []" "cl"
      using ok open_ by (auto simp: srv_ok_def split: if_splits)
    have r: "r = Inr 0" "buf = replicate k 0" "s' = s\<lparr>tls_peer_closed := True, tls_cipher := rest\<rparr>"
      using call close by (simp_all add: tls_open_def)
    have b: "srv_bytes s ys = []"
      using dc e plain by (simp add: srv_bytes_def)
    show ?thesis using e plain r b by (auto simp: srv_ok_def srv_bytes_def intro!: read_okI)
  next
    case bad
    then have "r = Inl InvalidData" "s' = s" using call by (simp_all add: tls_open_def)
    then show ?thesis using ok by (simp add: read_errI)
  qed
qed

lemma pull_pipe:
  assumes "tls_pull s = (rp, s1)"
  shows "srv_ok s1 ys cl = srv_ok s ys cl \<and> srv_bytes s1 ys = srv_bytes s ys
       \<and> tls_plain s1 = tls_plain s \<and> tls_peer_closed s1 = tls_peer_closed s"
  using tls_pull_keeps [OF assms] srv_view_cong [of s1 ys s ys cl] by simp

lemma tls_read_pipe:
  assumes ok: "srv_ok s ys cl" and call: "tls_read s (replicate k 0) = (r, buf, s')"
  shows "srv_ok s' ys cl
       \<and> pipe_step (srv_pipe s ys cl) (CRead k) (OGot r (take (res_count r) buf)) (srv_pipe s' ys cl)"
proof -
  consider (plain) "tls_plain s \<noteq> []" | (closed) "tls_plain s = []" "tls_peer_closed s"
    | (opened) "tls_plain s = []" "\<not> tls_peer_closed s"
    by blast
  then show ?thesis
  proof cases
    case plain
    then show ?thesis using take_plain_pipe [OF plain _ ok] call by (simp add: tls_read_def)
  next
    case closed
    then show ?thesis using ok call
      by (auto simp: tls_read_def srv_ok_def srv_bytes_def intro!: read_okI)
  next
    case opened
    show ?thesis
    proof (cases "tls_open s (replicate k 0)")
      case (Some res)
      then show ?thesis using opened open_pipe [OF ok opened] call by (simp add: tls_read_def)
    next
      case None
      obtain rp s1 where p1: "tls_pull s = (rp, s1)" by (cases "tls_pull s")
      note v1 = pull_pipe [OF p1, of ys cl]
      have ok1: "srv_ok s1 ys cl" using v1 ok by simp
      show ?thesis
      proof (cases "\<exists>e. rp = Inl e \<or> rp = Inr 0 \<and> e = UnexpectedEof")
        case True
        then show ?thesis using call opened None p1 v1 ok
          by (auto simp: tls_read_def) (simp_all add: pipe_step.read_err)
      next
        case False
        then obtain m where m: "rp = Inr m" "m \<noteq> 0" by (cases rp) auto
        show ?thesis
        proof (cases "tls_open s1 (replicate k 0)")
          case (Some res)
          then show ?thesis using open_pipe [OF ok1] opened v1 call None p1 m
            by (simp add: tls_read_def)
        next
          case None2: None
          obtain rq s2 where p2: "tls_pull s1 = (rq, s2)" by (cases "tls_pull s1")
          note v2 = pull_pipe [OF p2, of ys cl]
          show ?thesis using call opened None None2 p1 p2 m v1 v2 ok
            by (cases rq) (auto simp: tls_read_def intro: pipe_step.read_err read_errI)
        qed
      qed
    qed
  qed
qed

lemma srv_ok_append_record:
  assumes "srv_ok s ys False" and "p \<noteq> []" and "length p < 65536"
  shows "srv_ok s (ys @ encode_record (tls_key s) (AppData p)) False
       \<and> srv_bytes s (ys @ encode_record (tls_key s) (AppData p)) = srv_bytes s ys @ p"
proof -
  obtain t where d: "decode_stream (tls_key s) (tls_cipher s @ rx_data (tls_tcp s) @ ys) = Some (t, False)"
    and pc: "\<not> tls_peer_closed s"
    using assms(1) by (auto simp: srv_ok_def split: if_splits option.splits)
  have "decode_stream (tls_key s) (tls_cipher s @ rx_data (tls_tcp s) @ ys @ encode_record (tls_key s) (AppData p))
        = Some (t @ p, False)"
    using decode_stream_append [OF d, of "encode_record (tls_key s) (AppData p)"]
      decode_stream_record [OF assms(2,3)] by simp
  then show ?thesis using d pc by (simp add: srv_ok_def srv_bytes_def)
qed

lemma srv_ok_append_close:
  assumes "srv_ok s ys False"
  shows "srv_ok s (ys @ encode_record (tls_key s) CloseNotify) True
       \<and> srv_bytes s (ys @ encode_record (tls_key s) CloseNotify) = srv_bytes s ys"
proof -
  obtain t where d: "decode_stream (tls_key s) (tls_cipher s @ rx_data (tls_tcp s) @ ys) = Some (t, False)"
    and pc: "\<not> tls_peer_closed s"
    using assms(1) by (auto simp: srv_ok_def split: if_splits option.splits)
  have "decode_stream (tls_key s) (tls_cipher s @ rx_data (tls_tcp s) @ ys @ encode_record (tls_key s) CloseNotify)
        = Some (t, True)"
    using decode_stream_append [OF d, of "encode_record (tls_key s) CloseNotify"] decode_stream_close
    by (simp del: encode_record.simps)
  then show ?thesis using d pc by (simp add: srv_ok_def srv_bytes_def del: encode_record.simps)
qed

lemma tls_write_pipe:
  assumes key: "tls_key c = tls_key s" and ok: "srv_ok s (tx_data (tls_tcp c)) (tls_close_sent c)"
    and call: "tls_write c data = (r, c')"
  shows "tls_key c' = tls_key s \<and> srv_ok s (tx_data (tls_tcp c')) (tls_close_sent c')
       \<and> pipe_step (srv_pipe s (tx_data (tls_tcp c)) (tls_close_sent c)) (CWrite data) (OWrote r)
                   (srv_pipe s (tx_data (tls_tcp c')) (tls_close_sent c'))"
proof (cases "tls_close_sent c")
  case True
  then show ?thesis using call ok key by (auto simp: tls_write_def intro: pipe_stepI)
next
  case open_: False
  show ?thesis
  proof (cases "data = []")
    case True
    then show ?thesis using call ok key open_ by (auto simp: tls_write_def intro: pipe_stepI)
  next
  case nonempty: False
  have False': "\<not> (tls_close_sent c \<or> data = [])" using open_ nonempty by simp
  let ?n = "min (length data) max_fragment"
  let ?rec = "encode_record (tls_key c) (AppData (take ?n data))"
  obtain rw t where w: "tcp_write_all (tls_tcp c) ?rec = (rw, t)" by (cases "tcp_write_all (tls_tcp c) ?rec")
  note tx = tcp_write_all_tx [OF w]
  have small: "take ?n data \<noteq> []" "length (take ?n data) < 65536"
    using False' by (auto simp: max_fragment_def)
  have ok0: "srv_ok s (tx_data (tls_tcp c)) False" using ok False' by simp
  show ?thesis
  proof (cases "rw = Inr ()")
    case True
    then show ?thesis using call False' w tx srv_ok_append_record [OF ok0 small] key
      by (auto simp: tls_write_def Let_def intro!: write_okI simp del: encode_record.simps)
  next
    case no: False
    then obtain e where "rw = Inl e" by (cases rw) auto
    then show ?thesis using call False' w tx ok no key
      by (auto simp: tls_write_def Let_def intro!: write_errI simp del: encode_record.simps)
  qed
  qed
qed

lemma tls_shutdown_pipe:
  assumes key: "tls_key c = tls_key s" and ok: "srv_ok s (tx_data (tls_tcp c)) (tls_close_sent c)"
    and call: "tls_shutdown c = (p, c')"
  shows "tls_key c' = tls_key s \<and> srv_ok s (tx_data (tls_tcp c')) (tls_close_sent c')
       \<and> pipe_step (srv_pipe s (tx_data (tls_tcp c)) (tls_close_sent c)) CShutdown (OShut p)
                   (srv_pipe s (tx_data (tls_tcp c')) (tls_close_sent c'))"
proof (cases "tls_close_sent c")
  case True
  then show ?thesis using call ok key
    by (cases "sock_err (tls_tcp c)") (auto simp: tls_shutdown_def tcp_shutdown_def intro: pipe_stepI)
next
  case False
  let ?rec = "encode_record (tls_key c) CloseNotify"
  obtain rw t where w: "tcp_write_all (tls_tcp c) ?rec = (rw, t)" by (cases "tcp_write_all (tls_tcp c) ?rec")
  note tx = tcp_write_all_tx [OF w]
  have ok0: "srv_ok s (tx_data (tls_tcp c)) False" using ok False by simp
  show ?thesis
  proof (cases rw)
    case (Inr u)
    then show ?thesis using call False w tx srv_ok_append_close [OF ok0] key
      by (auto simp: tls_shutdown_def tcp_shutdown_def intro!: shut_okI simp del: encode_record.simps)
  next
    case (Inl e)
    then show ?thesis using call False w tx ok key
      by (auto simp: tls_shutdown_def intro: shut_otherI simp del: encode_record.simps)
  qed
qed

lemma tcp_write_pipe:
  assumes inv: "rx_eof s \<longrightarrow> wr_closed c \<and> tx_data c = []" and call: "tcp_write c data = (r, c')"
  shows "(rx_eof s \<longrightarrow> wr_closed c' \<and> tx_data c' = [])
       \<and> pipe_step \<lparr>p_bytes = rx_data s @ tx_data c, p_closed = wr_closed c\<rparr> (CWrite data) (OWrote r)
                   \<lparr>p_bytes = rx_data s @ tx_data c', p_closed = wr_closed c'\<rparr>"
  using assms
  by (auto simp: tcp_write_def Let_def split: if_splits option.splits intro!: write_okI write_errI)

lemma tcp_read_pipe:
  assumes inv: "rx_eof s \<longrightarrow> wr_closed c \<and> tx_data c = []"
    and call: "tcp_read s (replicate k 0) = (r, buf, s')"
  shows "(rx_eof s' \<longrightarrow> wr_closed c \<and> tx_data c = [])
       \<and> pipe_step \<lparr>p_bytes = rx_data s @ tx_data c, p_closed = wr_closed c\<rparr> (CRead k)
                   (OGot r (take (res_count r) buf))
                   \<lparr>p_bytes = rx_data s' @ tx_data c, p_closed = wr_closed c\<rparr>"
proof -
  let ?n = "min k (length (rx_data s))"
  have got: "take ?n (copy_prefix (rx_data s) (replicate k 0)) = take ?n (rx_data s @ tx_data c)"
    using take_copy_prefix [of "replicate k (0 :: byte)" "rx_data s"] by (simp add: min_def)
  have rest: "drop k (rx_data s) @ tx_data c = drop ?n (rx_data s @ tx_data c)"
    by (simp add: min_def)
  show ?thesis
    using assms got rest
    by (auto simp: tcp_read_shape tcp_read_ready_def split: if_splits intro!: read_okI read_errI)
qed

lemma tcp_shutdown_pipe:
  assumes inv: "rx_eof s \<longrightarrow> wr_closed c \<and> tx_data c = []" and call: "tcp_shutdown c = (p, c')"
  shows "(rx_eof s \<longrightarrow> wr_closed c' \<and> tx_data c' = [])
       \<and> pipe_step \<lparr>p_bytes = rx_data s @ tx_data c, p_closed = wr_closed c\<rparr> CShutdown (OShut p)
                   \<lparr>p_bytes = rx_data s @ tx_data c', p_closed = wr_closed c'\<rparr>"
  using assms by (cases "sock_err c") (auto simp: tcp_shutdown_def intro: shut_okI shut_otherI)

lemma conn_step_refines:
  assumes inv: "conn_inv cs" and call: "conn_step op cs = (out, cs')"
  shows "conn_inv cs' \<and> pipe_step (conn_abs cs) op out (conn_abs cs')"
proof -
  obtain c s where cs: "cs = (c, s)" by (cases cs)
  show ?thesis
  proof (cases c)
    case (Tcp a)
    then obtain b where s: "s = Tcp b" using inv cs by (cases s) auto
    have i: "rx_eof b \<longrightarrow> wr_closed a \<and> tx_data a = []" using inv cs Tcp s by simp
    show ?thesis
    proof (cases op)
      case (CWrite data)
      obtain r a' where w: "tcp_write a data = (r, a')" by (cases "tcp_write a data")
      show ?thesis using tcp_write_pipe [OF i w] call cs Tcp s CWrite w by auto
    next
      case CDeliver
      have "cs' = (Tcp (a\<lparr>tx_data := [], tx_room := tx_room a + length (tx_data a), write_waiter := False\<rparr>),
                   Tcp (b\<lparr>rx_data := rx_data b @ tx_data a, rx_eof := rx_eof b \<or> wr_closed a,
                          read_waiter := read_waiter b \<and> \<not> (tx_data a \<noteq> [] \<or> wr_closed a)\<rparr>))"
           "out = ODelivered"
        using call cs Tcp s CDeliver by (auto simp: tcp_deliver_def Let_def)
      then show ?thesis using i cs Tcp s CDeliver by (auto intro: pipe_step.deliver)
    next
      case (CRead k)
      obtain r buf b' where rd: "tcp_read b (replicate k 0) = (r, buf, b')"
        by (cases "tcp_read b (replicate k 0)")
      show ?thesis using tcp_read_pipe [OF i rd] call cs Tcp s CRead rd by auto
    next
      case CShutdown
      obtain p a' where sh: "tcp_shutdown a = (p, a')" by (cases "tcp_shutdown a")
      show ?thesis using tcp_shutdown_pipe [OF i sh] call cs Tcp s CShutdown sh by auto
    qed
  next
    case (Tls a)
    then obtain b where s: "s = Tls b" using inv cs by (cases s) auto
    have key: "tls_key a = tls_key b" and ok: "srv_ok b (tx_data (tls_tcp a)) (tls_close_sent a)"
      using inv cs Tls s by simp_all
    show ?thesis
    proof (cases op)
      case (CWrite data)
      obtain r a' where w: "tls_write a data = (r, a')" by (cases "tls_write a data")
      show ?thesis using tls_write_pipe [OF key ok w] call cs Tls s CWrite w by auto
    next
      case CDeliver
      let ?a' = "a\<lparr>tls_tcp := (tls_tcp a)\<lparr>tx_data := [], tx_room := tx_room (tls_tcp a) + length (tx_data (tls_tcp a)),
                   write_waiter := False\<rparr>\<rparr>"
      let ?b' = "b\<lparr>tls_tcp := (tls_tcp b)\<lparr>rx_data := rx_data (tls_tcp b) @ tx_data (tls_tcp a),
                   rx_eof := rx_eof (tls_tcp b) \<or> wr_closed (tls_tcp a),
                   read_waiter := read_waiter (tls_tcp b) \<and> \<not> (tx_data (tls_tcp a) \<noteq> [] \<or> wr_closed (tls_tcp a))\<rparr>\<rparr>"
      have d: "cs' = (Tls ?a', Tls ?b')" "out = ODelivered"
        using call cs Tls s CDeliver by (auto simp: tcp_deliver_def Let_def)
      have v: "srv_ok ?b' [] cl = srv_ok b (tx_data (tls_tcp a)) cl
             \<and> srv_bytes ?b' [] = srv_bytes b (tx_data (tls_tcp a))" for cl
        by (rule srv_view_cong) simp_all
      show ?thesis using d v [of "tls_close_sent a"] key ok cs Tls s CDeliver by (auto intro: pipe_step.deliver)
    next
      case (CRead k)
      obtain r buf b' where rd: "tls_read b (replicate k 0) = (r, buf, b')"
        by (cases "tls_read b (replicate k 0)")
      have "tls_key b' = tls_key b" using tls_read_keeps [OF rd] by simp
      then show ?thesis using tls_read_pipe [OF ok rd] key call cs Tls s CRead rd by auto
    next
      case CShutdown
      obtain p a' where sh: "tls_shutdown a = (p, a')" by (cases "tls_shutdown a")
      show ?thesis using tls_shutdown_pipe [OF key ok sh] call cs Tls s CShutdown sh by auto
    qed
  qed
qed

section \<open>Runs refine the pipe\<close>

lemma pipe_step_order:
  "pipe_step p op out p' \<Longrightarrow> got [out] @ p_bytes p' = p_bytes p @ sent [op] [out]"
  by (induction rule: pipe_step.induct) (simp_all add: take_add [symmetric])

lemma conn_start:
  "conn_inv (conn_plain room) \<and> p_bytes (conn_abs (conn_plain room)) = []"
  "conn_inv (conn_secure room key) \<and> p_bytes (conn_abs (conn_secure room key)) = []"
  by (simp_all add: conn_plain_def conn_secure_def from_tcp_Tcp from_tls_Tls tcp_connected_def
      tls_connected_def srv_ok_def srv_bytes_def)

lemma sent_Cons: "sent (op # ops) (out # outs) = sent [op] [out] @ sent ops outs"
proof (cases op)
  case (CWrite data)
  show ?thesis
  proof (cases out)
    case (OWrote r)
    then show ?thesis using CWrite by (cases r) simp_all
  qed (simp_all add: CWrite)
qed simp_all

lemma got_Cons: "got (out # outs) = got [out] @ got outs"
  by (cases out) simp_all

text \<open>C8. Connection refinement: from a connection in its invariant, every run of writes, deliveries, reads and shutdowns, over a plain or a secure StreamType, is a run of the abstract byte pipe under the refinement mapping, and keeps the invariant.\<close>

theorem conn_run_refines:
  "conn_inv cs \<Longrightarrow> conn_run ops cs = (outs, cs') \<Longrightarrow>
   conn_inv cs' \<and> pipe_steps (conn_abs cs) ops outs (conn_abs cs')"
proof (induction ops arbitrary: cs outs)
  case Nil
  then show ?case by (auto intro: pipe_steps.nil)
next
  case (Cons op ops)
  obtain out cs1 where s: "conn_step op cs = (out, cs1)" by (cases "conn_step op cs")
  obtain outs1 where r: "conn_run ops cs1 = (outs1, cs')" "outs = out # outs1"
    using Cons.prems(2) s by (auto split: prod.splits)
  note one = conn_step_refines [OF Cons.prems(1) s]
  show ?case using Cons.IH [OF conjunct1 [OF one] r(1)] one r(2) by (auto intro: pipe_steps.cons)
qed

text \<open>C9. Byte-stream order: over any run of a connection in its invariant, the bytes the reads returned, followed by what is still in flight, are the bytes that were in flight before followed by the bytes the writes accepted, in order; from a fresh connection, the reads return a prefix of what was written.\<close>

theorem conn_stream_order:
  "conn_inv cs \<Longrightarrow> conn_run ops cs = (outs, cs') \<Longrightarrow>
   got outs @ p_bytes (conn_abs cs') = p_bytes (conn_abs cs) @ sent ops outs"
proof (induction ops arbitrary: cs outs)
  case Nil
  then show ?case by simp
next
  case (Cons op ops)
  obtain out cs1 where s: "conn_step op cs = (out, cs1)" by (cases "conn_step op cs")
  obtain outs1 where r: "conn_run ops cs1 = (outs1, cs')" "outs = out # outs1"
    using Cons.prems(2) s by (auto split: prod.splits)
  note one = conn_step_refines [OF Cons.prems(1) s]
  have step: "got [out] @ p_bytes (conn_abs cs1) = p_bytes (conn_abs cs) @ sent [op] [out]"
    using pipe_step_order one by blast
  have IH: "got outs1 @ p_bytes (conn_abs cs') = p_bytes (conn_abs cs1) @ sent ops outs1"
    using Cons.IH [OF conjunct1 [OF one] r(1)] .
  have "got outs @ p_bytes (conn_abs cs') = got [out] @ (got outs1 @ p_bytes (conn_abs cs'))"
    by (simp add: r(2) got_Cons [of out outs1])
  also have "\<dots> = (got [out] @ p_bytes (conn_abs cs1)) @ sent ops outs1" using IH by simp
  also have "\<dots> = p_bytes (conn_abs cs) @ sent (op # ops) outs" using step by (simp add: r(2) sent_Cons [of op ops])
  finally show ?case .
qed

end
