(* ===== verification/Wakeup.thy ===== *)
theory Wakeup
  imports Connection
begin

text \<open>
  Readiness without a missed wake-up. \<open>StreamType\<close> is driven by tokio: a read that
  finds nothing answers \<open>WouldBlock\<close> (\<open>NotReady\<close> through \<open>read_buf\<close>) and the
  task is woken when the socket becomes readable. The socket model registers the reader
  (\<open>read_waiter\<close>) on \<open>WouldBlock\<close>, and delivery (\<open>Connection.st_deliver\<close>)
  reports the wake-up. This theory shows, for the secure variant, that a \<open>read_buf\<close>
  on an idle \<open>StreamType\<close> registers the reader, that the peer's next record wakes it,
  and that the retried \<open>read_buf\<close> then fills the buffer with the record's plaintext.
\<close>

section \<open>An idle secure read\<close>

lemma tls_read_idle:
  assumes "tls_plain s = []" "tls_cipher s = []" "\<not> tls_peer_closed s" "sock_err (tls_tcp s) = None"
    "rx_data (tls_tcp s) = []" "\<not> rx_eof (tls_tcp s)"
  shows "tls_read s buf = (Inl WouldBlock, buf, s\<lparr>tls_tcp := (tls_tcp s)\<lparr>read_waiter := True\<rparr>\<rparr>)"
proof -
  have "parse_record (tls_key s) [] = Incomplete" by (simp add: parse_record_def)
  then show ?thesis using assms
    by (simp add: tls_read_def tls_open_def tls_pull_def tcp_read_shape tcp_read_ready_def)
qed

section \<open>Wake-up after NotReady\<close>

text \<open>C16. No missed wake-up on a secure stream: read_buf on a StreamType::Tls whose session and socket hold nothing answers NotReady and leaves the buffer unfilled; when the peer's application-data record is then delivered the reader is woken, and the retried read_buf answers Ready with as many bytes as fit, which are the record's first plaintext bytes.\<close>

theorem st_read_buf_tls_no_missed_wakeup:
  assumes idle: "tls_plain s = []" "tls_cipher s = []" "\<not> tls_peer_closed s" "sock_err (tls_tcp s) = None"
      "rx_data (tls_tcp s) = []" "\<not> rx_eof (tls_tcp s)"
    and key: "tls_key c = tls_key s"
    and sent: "tx_data (tls_tcp c) = encode_record (tls_key c) (AppData data)" "data \<noteq> []" "length data < 65536"
    and room: "has_remaining_mut m"
    and first: "st_read_buf tcp_impl tls_impl (from_tls s) m = (p1, m1, st1)"
    and net: "st_deliver (from_tls c) st1 = (c', st2, wake)"
  shows "p1 = Inr NotReady \<and> bm_filled m1 = bm_filled m \<and> wake
       \<and> fst (st_read_buf tcp_impl tls_impl st2 m) = Inr (Ready (min (remaining_mut m) (length data)))
       \<and> bm_filled (fst (snd (st_read_buf tcp_impl tls_impl st2 m))) = bm_filled m @ take (remaining_mut m) data"
proof -
  let ?k = "remaining_mut m"
  let ?s1 = "s\<lparr>tls_tcp := (tls_tcp s)\<lparr>read_waiter := True\<rparr>\<rparr>"
  have zero: "snd (tls_prepare_uninitialized_buffer s' (bm_spare m)) = replicate ?k 0" for s'
    by (simp add: tls_prepare_uninitialized_buffer_def default_prepare_uninitialized_buffer_def remaining_mut_def)
  have r1: "p1 = Inr NotReady" "bm_filled m1 = bm_filled m" "st1 = from_tls ?s1"
    using first room tls_read_idle [OF idle, of "replicate ?k 0"]
    by (auto simp: from_tls_Tls default_read_buf_def Let_def zero has_remaining_mut_def)
  let ?s2 = "?s1\<lparr>tls_tcp := (tls_tcp ?s1)\<lparr>rx_data := tx_data (tls_tcp c),
                rx_eof := wr_closed (tls_tcp c), read_waiter := False\<rparr>\<rparr>"
  have r2: "wake" "st2 = from_tls ?s2"
    using net r1(3) sent idle by (auto simp: from_tls_Tls tcp_deliver_def Let_def)
  have rd: "fst (tls_read ?s2 (replicate ?k 0)) = Inr (min (length (replicate ?k (0::byte))) (length data))
       \<and> take (min (length (replicate ?k (0::byte))) (length data)) (fst (snd (tls_read ?s2 (replicate ?k 0))))
         = take (length (replicate ?k (0::byte))) data"
    by (rule tls_read_one_record) (simp_all add: idle key sent del: encode_record.simps)
  obtain r b s3 where t3: "tls_read ?s2 (replicate ?k 0) = (r, b, s3)" by (cases "tls_read ?s2 (replicate ?k 0)")
  have "r = Inr (min ?k (length data))" "take (min ?k (length data)) b = take ?k data"
    using rd t3 by simp_all
  then show ?thesis using r1 r2 room t3
    by (simp add: from_tls_Tls default_read_buf_def Let_def zero has_remaining_mut_def advance_mut_def)
qed

end
