(* ===== verification/End_Of_Stream.thy ===== *)
theory End_Of_Stream
  imports Tls_Model
begin

text \<open>
  Reading a \<open>StreamType\<close> to its end. \<open>StreamType\<close> implements \<open>io::Read\<close>, so
  the protocol layer can call std's \<open>read_to_end\<close> on it (\<open>Io_Traits.read_to_end\<close>).
  Both transport models give it a termination argument: for a socket, the bytes in the
  receive queue; for a secure session, buffered plaintext plus the record buffer plus the
  socket's receive queue (\<open>tls_backlog\<close>); in both cases from states whose socket has
  no pending \<open>Interrupted\<close> error (\<open>no_eintr\<close>: the socket model keeps a pending
  error until it is taken, so a pending \<open>Interrupted\<close> would be retried forever).
  C13: \<open>read_to_end\<close> on a \<open>StreamType\<close> returns.
\<close>

text \<open>The termination measure of a secure read and the socket condition it needs.\<close>

definition tls_backlog :: "tls_sock \<Rightarrow> nat" where
  "tls_backlog s = length (tls_plain s) + length (tls_cipher s) + length (rx_data (tls_tcp s))"

definition no_eintr :: "tcp_sock \<Rightarrow> bool" where
  "no_eintr t \<longleftrightarrow> sock_err t \<noteq> Some Interrupted"

lemma tcp_read_measured: "read_measured tcp_impl (\<lambda>t. length (rx_data t)) no_eintr"
  unfolding read_measured_def
  by (auto simp: tcp_read_shape tcp_read_ready_def no_eintr_def split: if_splits)

lemma tls_pull_measure:
  assumes "tls_pull s = (r, s')"
  shows "tls_backlog s' = tls_backlog s \<and> tls_plain s' = tls_plain s \<and> tls_peer_closed s' = tls_peer_closed s
       \<and> sock_err (tls_tcp s') = sock_err (tls_tcp s)
       \<and> (\<forall>e. r = Inl e \<longrightarrow> e = WouldBlock \<or> sock_err (tls_tcp s) = Some e)"
proof -
  have "length (tls_cipher s') + length (rx_data (tls_tcp s')) = length (tls_cipher s) + length (rx_data (tls_tcp s))"
    using tls_pull_keeps [OF assms] by (metis length_append)
  then show ?thesis using tls_pull_keeps [OF assms] assms
    by (auto simp: tls_backlog_def tls_pull_def tcp_read_shape split: if_splits)
qed

lemma tls_take_plain_measure:
  assumes "tls_plain s \<noteq> []" "buf \<noteq> []" "tls_take_plain s buf = (r, b, s')"
  shows "\<exists>n. r = Inr n \<and> 0 < n \<and> tls_backlog s' < tls_backlog s \<and> tls_tcp s' = tls_tcp s"
  using assms by (auto simp: tls_take_plain_def tls_backlog_def Let_def)

lemma tls_open_measure:
  assumes "tls_plain s = []" "buf \<noteq> []" "tls_open s buf = Some (r, b, s')"
  shows "(case r of Inr n \<Rightarrow> 0 < n \<longrightarrow> tls_backlog s' < tls_backlog s | Inl e \<Rightarrow> e \<noteq> Interrupted)
       \<and> tls_tcp s' = tls_tcp s"
proof (cases "parse_record (tls_key s) (tls_cipher s)")
  case (Parsed rec rest)
  show ?thesis
  proof (cases rec)
    case (AppData p)
    have l: "length p + length rest + 3 \<le> length (tls_cipher s)"
      using parse_record_AppData_length Parsed AppData by blast
    have "tls_take_plain (s\<lparr>tls_plain := p, tls_cipher := rest\<rparr>) buf = (r, b, s')"
      using assms(3) Parsed AppData by (simp add: tls_open_def)
    then show ?thesis using l assms(1,2)
      by (auto simp: tls_take_plain_def tls_backlog_def Let_def)
  next
    case CloseNotify
    then show ?thesis using assms Parsed by (auto simp: tls_open_def)
  qed
next
  case Incomplete
  then show ?thesis using assms by (simp add: tls_open_def)
next
  case Malformed
  then show ?thesis using assms by (auto simp: tls_open_def)
qed

lemma tls_read_measure:
  assumes ok: "no_eintr (tls_tcp s)" and buf: "buf \<noteq> []" and call: "tls_read s buf = (r, b, s')"
  shows "no_eintr (tls_tcp s')
       \<and> (case r of Inr n \<Rightarrow> 0 < n \<longrightarrow> tls_backlog s' < tls_backlog s | Inl e \<Rightarrow> e \<noteq> Interrupted)"
proof -
  consider (plain) "tls_plain s \<noteq> []" | (closed) "tls_plain s = []" "tls_peer_closed s"
    | (opened) "tls_plain s = []" "\<not> tls_peer_closed s"
    by blast
  then show ?thesis
  proof cases
    case plain
    then show ?thesis using tls_take_plain_measure [OF plain buf] call ok by (auto simp: tls_read_def)
  next
    case closed
    then show ?thesis using call ok by (auto simp: tls_read_def)
  next
    case opened
    show ?thesis
    proof (cases "tls_open s buf")
      case (Some res)
      then show ?thesis using opened call ok tls_open_measure [OF opened(1) buf, of r b s']
        by (simp add: tls_read_def)
    next
      case None
      obtain rp s1 where p1: "tls_pull s = (rp, s1)" by (cases "tls_pull s")
      note v1 = tls_pull_measure [OF p1]
      show ?thesis
      proof (cases "\<exists>e. rp = Inl e \<or> rp = Inr 0 \<and> e = UnexpectedEof")
        case True
        then show ?thesis using call opened None p1 v1 ok by (auto simp: tls_read_def no_eintr_def)
      next
        case False
        then obtain m where m: "rp = Inr m" "m \<noteq> 0" by (cases rp) auto
        show ?thesis
        proof (cases "tls_open s1 buf")
          case (Some res)
          then show ?thesis using tls_open_measure [of s1 buf r b s'] opened v1 call None p1 m ok buf
            by (simp add: tls_read_def no_eintr_def split: sum.splits)
        next
          case None2: None
          obtain rq s2 where p2: "tls_pull s1 = (rq, s2)" by (cases "tls_pull s1")
          note v2 = tls_pull_measure [OF p2]
          show ?thesis using call opened None None2 p1 p2 m v1 v2 ok
            by (cases rq) (auto simp: tls_read_def no_eintr_def)
        qed
      qed
    qed
  qed
qed

lemma tls_read_measured: "read_measured tls_impl tls_backlog (\<lambda>s. no_eintr (tls_tcp s))"
  unfolding read_measured_def
proof (intro allI impI)
  fix s :: tls_sock and buf :: "byte list"
  assume "no_eintr (tls_tcp s)" "buf \<noteq> []"
  then show "no_eintr (tls_tcp (snd (snd (io_read tls_impl s buf))))
       \<and> (case fst (io_read tls_impl s buf) of
            Inr n \<Rightarrow> 0 < n \<longrightarrow> tls_backlog (snd (snd (io_read tls_impl s buf))) < tls_backlog s
          | Inl e \<Rightarrow> e \<noteq> Interrupted)"
    unfolding tls_impl_sel
    using tls_read_measure [of s buf "fst (tls_read s buf)" "fst (snd (tls_read s buf))" "snd (snd (tls_read s buf))"]
    by simp
qed

text \<open>C13. read_to_end terminates: std's read_to_end loop over a plain or a secure StreamType returns, from any state whose socket has no pending Interrupted error, for any non-empty chunk size.\<close>

theorem st_read_to_end_terminates:
  assumes "st_lift no_eintr (\<lambda>s. no_eintr (tls_tcp s)) st" and "0 < chunk"
  shows "\<exists>r. read_to_end (stream_type_impl tcp_impl tls_impl) chunk st buf = Some r"
  using read_to_end_loop_terminates [OF read_measured_stream_type [OF tcp_read_measured tls_read_measured] assms]
  by (simp add: read_to_end_def)

end
