(* ===== verification/Duplex.thy ===== *)
theory Duplex
  imports Connection
begin

text \<open>
  A connection carries bytes both ways: each end's \<open>StreamType\<close> both writes and
  reads. \<open>Connection\<close> drives one direction (the client writes, the server reads);
  here the same operations run in either direction (\<open>side\<close>: \<open>Up\<close> from client to
  server, \<open>Down\<close> from server to client), and the abstract specification is the product
  of two byte pipes, one per direction, in the manner of a product of event systems:
  a step of one direction leaves the other pipe as it is. The key lemma,
  \<open>conn_step_frame\<close>, shows that the operations of one direction never touch what the
  other direction's refinement mapping and invariant read (a socket's receive side
  versus its send side, a session's record buffers versus its close notification).
  C18 lifts this to runs and derives byte order per direction, so that, for instance,
  the server can still answer after the client has shut down its write half.
\<close>

section \<open>Both directions of a connection\<close>

datatype side = Up | Down

text \<open>One operation in either direction: \<open>Down\<close> is \<open>Connection.conn_step\<close> with the roles of the two streams exchanged.\<close>

fun duplex_step :: "side \<times> conn_op \<Rightarrow> stream \<times> stream \<Rightarrow> conn_out \<times> stream \<times> stream" where
  "duplex_step (Up, op) (c, s) = conn_step op (c, s)"
| "duplex_step (Down, op) (c, s) = (case conn_step op (s, c) of (out, s', c') \<Rightarrow> (out, c', s'))"

fun duplex_run :: "(side \<times> conn_op) list \<Rightarrow> stream \<times> stream \<Rightarrow> conn_out list \<times> stream \<times> stream" where
  "duplex_run [] cs = ([], cs)"
| "duplex_run (op # ops) cs =
     (case duplex_step op cs of (out, cs') \<Rightarrow> (case duplex_run ops cs' of (outs, cs'') \<Rightarrow> (out # outs, cs'')))"

text \<open>The invariant and the refinement mapping: one \<open>Connection\<close> mapping per direction.\<close>

fun duplex_inv :: "stream \<times> stream \<Rightarrow> bool" where
  "duplex_inv (c, s) \<longleftrightarrow> conn_inv (c, s) \<and> conn_inv (s, c)"

fun duplex_abs :: "stream \<times> stream \<Rightarrow> pipe \<times> pipe" where
  "duplex_abs (c, s) = (conn_abs (c, s), conn_abs (s, c))"

text \<open>The specification: two independent pipes.\<close>

inductive duplex_pipe_step :: "pipe \<times> pipe \<Rightarrow> side \<times> conn_op \<Rightarrow> conn_out \<Rightarrow> pipe \<times> pipe \<Rightarrow> bool" where
  up: "pipe_step p op out p' \<Longrightarrow> duplex_pipe_step (p, q) (Up, op) out (p', q)"
| down: "pipe_step q op out q' \<Longrightarrow> duplex_pipe_step (p, q) (Down, op) out (p, q')"

inductive duplex_pipe_steps :: "pipe \<times> pipe \<Rightarrow> (side \<times> conn_op) list \<Rightarrow> conn_out list \<Rightarrow> pipe \<times> pipe \<Rightarrow> bool" where
  nil: "duplex_pipe_steps P [] [] P"
| cons: "duplex_pipe_step P op out P1 \<Longrightarrow> duplex_pipe_steps P1 ops outs P' \<Longrightarrow>
     duplex_pipe_steps P (op # ops) (out # outs) P'"

text \<open>The operations and outcomes of one direction, and its pipe.\<close>

fun side_ops :: "side \<Rightarrow> (side \<times> conn_op) list \<Rightarrow> conn_out list \<Rightarrow> conn_op list \<times> conn_out list" where
  "side_ops d ((d', op) # ops) (out # outs) =
     (case side_ops d ops outs of (os, rs) \<Rightarrow> if d' = d then (op # os, out # rs) else (os, rs))"
| "side_ops d _ _ = ([], [])"

fun side_pipe :: "side \<Rightarrow> pipe \<times> pipe \<Rightarrow> pipe" where
  "side_pipe Up (p, q) = p"
| "side_pipe Down (p, q) = q"

section \<open>One direction leaves the other alone\<close>

lemma tcp_write_rx: "tcp_write c data = (r, c') \<Longrightarrow> rx_data c' = rx_data c \<and> rx_eof c' = rx_eof c"
  by (auto simp: tcp_write_def Let_def split: if_splits option.splits)

lemma tcp_shutdown_rx: "tcp_shutdown c = (p, c') \<Longrightarrow> rx_data c' = rx_data c \<and> rx_eof c' = rx_eof c"
  by (auto simp: tcp_shutdown_def split: option.splits)

lemma tcp_write_all_rx: "tcp_write_all t bs = (r, t') \<Longrightarrow> rx_data t' = rx_data t"
  by (auto simp: tcp_write_all_def tcp_write_def Let_def split: if_splits option.splits sum.splits prod.splits)

lemma tls_write_rx:
  "tls_write c data = (r, c') \<Longrightarrow> tls_key c' = tls_key c \<and> tls_plain c' = tls_plain c
   \<and> tls_cipher c' = tls_cipher c \<and> tls_peer_closed c' = tls_peer_closed c \<and> rx_data (tls_tcp c') = rx_data (tls_tcp c)"
  by (auto simp: tls_write_def Let_def dest: tcp_write_all_rx split: if_splits prod.splits sum.splits)

lemma tls_shutdown_rx:
  "tls_shutdown c = (p, c') \<Longrightarrow> tls_key c' = tls_key c \<and> tls_plain c' = tls_plain c
   \<and> tls_cipher c' = tls_cipher c \<and> tls_peer_closed c' = tls_peer_closed c \<and> rx_data (tls_tcp c') = rx_data (tls_tcp c)"
  by (auto simp: tls_shutdown_def tcp_shutdown_def dest: tcp_write_all_rx split: if_splits prod.splits sum.splits option.splits)

lemma conn_step_frame:
  assumes inv: "conn_inv (s, c)" and call: "conn_step op (c, s) = (out, c', s')"
  shows "conn_inv (s', c') \<and> conn_abs (s', c') = conn_abs (s, c)"
proof (cases c)
  case (Tcp a)
  then obtain b where s: "s = Tcp b" using inv by (cases s) auto
  show ?thesis
  proof (cases op)
    case (CWrite data)
    obtain r a' where w: "tcp_write a data = (r, a')" by (cases "tcp_write a data")
    show ?thesis using tcp_write_rx [OF w] inv call Tcp s CWrite w by auto
  next
    case CDeliver
    then show ?thesis using inv call Tcp s by (auto simp: tcp_deliver_def Let_def)
  next
    case (CRead k)
    obtain r buf b' where rd: "tcp_read b (replicate k 0) = (r, buf, b')"
      by (cases "tcp_read b (replicate k 0)")
    show ?thesis using tcp_read_tx [OF rd] inv call Tcp s CRead rd by auto
  next
    case CShutdown
    obtain p a' where sh: "tcp_shutdown a = (p, a')" by (cases "tcp_shutdown a")
    show ?thesis using tcp_shutdown_rx [OF sh] inv call Tcp s CShutdown sh by auto
  qed
next
  case (Tls a)
  then obtain b where s: "s = Tls b" using inv by (cases s) auto
  have view: "srv_ok a' ys cl = srv_ok a ys cl \<and> srv_bytes a' ys = srv_bytes a ys"
    if "tls_key a' = tls_key a \<and> tls_plain a' = tls_plain a \<and> tls_cipher a' = tls_cipher a
        \<and> tls_peer_closed a' = tls_peer_closed a \<and> rx_data (tls_tcp a') = rx_data (tls_tcp a)" for a' ys cl
    using that by (intro srv_view_cong) simp_all
  show ?thesis
  proof (cases op)
    case (CWrite data)
    obtain r a' where w: "tls_write a data = (r, a')" by (cases "tls_write a data")
    show ?thesis using view [OF tls_write_rx [OF w]] tls_write_rx [OF w] inv call Tls s CWrite w by auto
  next
    case CDeliver
    let ?a' = "a\<lparr>tls_tcp := (tls_tcp a)\<lparr>tx_data := [], tx_room := tx_room (tls_tcp a) + length (tx_data (tls_tcp a)),
                 write_waiter := False\<rparr>\<rparr>"
    note v = view [of ?a']
    show ?thesis using v inv call Tls s CDeliver by (auto simp: tcp_deliver_def Let_def)
  next
    case (CRead k)
    obtain r buf b' where rd: "tls_read b (replicate k 0) = (r, buf, b')"
      by (cases "tls_read b (replicate k 0)")
    show ?thesis using tls_read_keeps [OF rd] inv call Tls s CRead rd by auto
  next
    case CShutdown
    obtain p a' where sh: "tls_shutdown a = (p, a')" by (cases "tls_shutdown a")
    show ?thesis using view [OF tls_shutdown_rx [OF sh]] tls_shutdown_rx [OF sh] inv call Tls s CShutdown sh by auto
  qed
qed

lemma duplex_start:
  "duplex_inv (conn_plain room) \<and> duplex_inv (conn_secure room key)"
  by (simp add: conn_plain_def conn_secure_def from_tcp_Tcp from_tls_Tls tcp_connected_def
      tls_connected_def srv_ok_def)

section \<open>Runs refine the two pipes\<close>

lemma pipe_steps_order:
  "pipe_steps p ops outs p' \<Longrightarrow> got outs @ p_bytes p' = p_bytes p @ sent ops outs"
proof (induction rule: pipe_steps.induct)
  case (nil p)
  then show ?case by simp
next
  case (cons p op out p1 ops outs p')
  have "got (out # outs) @ p_bytes p' = got [out] @ p_bytes p1 @ sent ops outs"
    using cons.IH by (simp add: got_Cons [of out outs])
  also have "\<dots> = p_bytes p @ sent (op # ops) (out # outs)"
    using pipe_step_order [OF cons.hyps(1)] by (simp add: sent_Cons [of op ops])
  finally show ?case .
qed

lemma duplex_pipe_steps_side:
  "duplex_pipe_steps P ops outs P' \<Longrightarrow> side_ops d ops outs = (dops, douts) \<Longrightarrow>
   pipe_steps (side_pipe d P) dops douts (side_pipe d P')"
proof (induction arbitrary: dops douts rule: duplex_pipe_steps.induct)
  case (nil P)
  then show ?case by (cases P; cases d) (auto intro: pipe_steps.nil)
next
  case (cons P op out P1 ops outs P')
  obtain os rs where r: "side_ops d ops outs = (os, rs)" by (cases "side_ops d ops outs")
  note IH = cons.IH [OF r]
  from cons.hyps(1) show ?case
  proof cases
    case (up p op' p' q)
    then show ?thesis using IH r cons.prems by (cases d) (auto intro: pipe_steps.cons)
  next
    case (down q op' q' p)
    then show ?thesis using IH r cons.prems by (cases d) (auto intro: pipe_steps.cons)
  qed
qed

text \<open>C18. Full-duplex refinement: from a connection whose two directions are each in the connection invariant, every run of writes, deliveries, reads and shutdowns in either direction, over a plain or a secure StreamType, is a run of two independent byte pipes, one per direction, and keeps the invariant; in each direction the bytes read, followed by what is in flight, are what was in flight followed by the bytes written in that direction, in order.\<close>

theorem duplex_run_refines:
  assumes "duplex_inv cs" and "duplex_run ops cs = (outs, cs')"
  shows "duplex_inv cs' \<and> duplex_pipe_steps (duplex_abs cs) ops outs (duplex_abs cs')
       \<and> (\<forall>d dops douts. side_ops d ops outs = (dops, douts) \<longrightarrow>
            got douts @ p_bytes (side_pipe d (duplex_abs cs')) = p_bytes (side_pipe d (duplex_abs cs)) @ sent dops douts)"
proof -
  have step: "duplex_inv cs1 \<and> duplex_pipe_step (duplex_abs cs0) op out (duplex_abs cs1)"
    if inv: "duplex_inv cs0" and call: "duplex_step op cs0 = (out, cs1)" for cs0 op out cs1
  proof -
    obtain c s where cs0: "cs0 = (c, s)" by (cases cs0)
    obtain d o' where op: "op = (d, o')" by (cases op)
    obtain c' s' where cs1: "cs1 = (c', s')" by (cases cs1)
    show ?thesis
    proof (cases d)
      case Up
      have e: "conn_step o' (c, s) = (out, c', s')" using call cs0 cs1 op Up by simp
      note r = conn_step_refines [OF _ e] and f = conn_step_frame [OF _ e]
      show ?thesis using r f inv cs0 cs1 op Up by (auto intro: duplex_pipe_step.up)
    next
      case Down
      have e: "conn_step o' (s, c) = (out, s', c')" using call cs0 cs1 op Down by (simp split: prod.splits)
      note r = conn_step_refines [OF _ e] and f = conn_step_frame [OF _ e]
      show ?thesis using r f inv cs0 cs1 op Down by (auto intro: duplex_pipe_step.down)
    qed
  qed
  have run: "duplex_inv cs' \<and> duplex_pipe_steps (duplex_abs cs) ops outs (duplex_abs cs')"
    using assms
  proof (induction ops arbitrary: cs outs)
    case Nil
    then show ?case by (auto intro: duplex_pipe_steps.nil)
  next
    case (Cons op ops)
    obtain out cs1 where s: "duplex_step op cs = (out, cs1)" by (cases "duplex_step op cs")
    obtain outs1 where r: "duplex_run ops cs1 = (outs1, cs')" "outs = out # outs1"
      using Cons.prems(2) s by (auto split: prod.splits)
    note one = step [OF Cons.prems(1) s]
    show ?case using Cons.IH [OF conjunct1 [OF one] r(1)] one r(2) by (auto intro: duplex_pipe_steps.cons)
  qed
  then show ?thesis using duplex_pipe_steps_side pipe_steps_order by blast
qed

end
