(* ===== verification/Spec2Isabelle.thy ===== *)
theory Spec2Isabelle
  imports Wakeup End_Of_Stream Duplex
begin

text \<open>
  \<^bold>\<open>A verification library for tarpc's \<open>StreamType\<close>\<close>
  (\<open>src/src/stream_type.rs\<close>, the whole of the repository's source).

  \<^bold>\<open>The program.\<close> \<open>StreamType\<close> is an enum with one variant per transport,
  \<open>Tcp(TcpStream)\<close> and (with the \<open>tls\<close> feature) \<open>Tls(TlsStream<TcpStream>)\<close>.
  Two \<open>From\<close> impls label an established transport; the impls of \<open>io::Read\<close>,
  \<open>io::Write\<close>, \<open>tokio_io::AsyncRead\<close> and \<open>tokio_io::AsyncWrite\<close> match on the
  variant and forward each call (\<open>read\<close>, \<open>write\<close>, \<open>flush\<close>,
  \<open>prepare_uninitialized_buffer\<close>, \<open>read_buf\<close>, \<open>shutdown\<close>, \<open>write_buf\<close>)
  to the wrapped stream. The protocol layer above calls these methods; the transports
  below are library code (tokio-core, tokio-tls) that the repository only calls.

  \<^bold>\<open>Theories.\<close>
  \<^item> \<open>Io_Prelude\<close>: bytes (\<open>8 word\<close>), \<open>io::ErrorKind\<close>, \<open>io::Result\<close> as a sum,
    \<open>futures::Poll\<close>, outcome kinds, copying into a slice, and the simp rules that turn
    "forward and re-wrap" into \<open>apsnd\<close>.
  \<^item> \<open>Io_Traits\<close>: the interface. The four traits are the record \<open>'s io_impl\<close> of
    methods over a stream state; the \<open>bytes\<close> crate's \<open>BufMut\<close> (written bytes and
    uninitialised spare capacity) and \<open>Buf\<close> (a cursor); \<open>try_nb!\<close>; the trait
    defaults \<open>default_read_buf\<close>, \<open>default_write_buf\<close>,
    \<open>default_prepare_uninitialized_buffer\<close>. The contracts a transport keeps are
    predicates on the record: \<open>read_contract\<close>, \<open>write_contract\<close>,
    \<open>uninit_sound\<close> (the documented meaning of \<open>prepare_uninitialized_buffer\<close>'s
    answer) and \<open>read_buf_safe\<close> (uninitialised bytes never reach the caller). A call
    sequence of the protocol layer is an \<open>io_op\<close> list run by \<open>run_ops\<close>. The lemmas
    show that the default \<open>read_buf\<close> is safe for a transport that keeps the contract
    and keeps the buffer's capacity, and that the default \<open>write_buf\<close> keeps the
    cursor in range. What \<open>read_buf\<close> and \<open>write_buf\<close> promise of the buffer is
    \<open>read_buf_contract\<close> (capacity kept, exactly the reported bytes appended) and
    \<open>write_buf_contract\<close> (cursor advanced exactly by the reported count); the
    defaults keep them for a transport that keeps the read and write contracts. std's \<open>read_to_end\<close> (a loop that appends chunks until a read
    of 0, retrying \<open>Interrupted\<close>) is \<open>read_to_end_loop\<close>, a
    \<open>partial_function (option)\<close>; \<open>read_measured\<close> states a measure that every
    productive read decreases, and \<open>read_to_end_loop_terminates\<close> proves that the loop
    then returns (\<open>Some\<close>), by well-founded induction on the measure.
  \<^item> \<open>Stream_Type\<close>: the repository's code, one definition per item of the file:
    \<open>StreamType\<close> (lines 9-14), \<open>from_tcp\<close>, \<open>from_tls\<close> (16-27), \<open>st_read\<close>
    (29-37), \<open>st_write\<close> and \<open>st_flush\<close> (39-55), \<open>st_prepare_uninitialized_buffer\<close>
    and \<open>st_read_buf\<close> (57-76), \<open>st_shutdown\<close> and \<open>st_write_buf\<close> (78-94), and
    \<open>stream_type_impl\<close>, the four impl blocks as one method record. The wrapped
    transports are type parameters with method records \<open>tcp\<close> and \<open>tls\<close>, so its
    theorems hold for every transport: transparency over any call sequence (C1), the
    obligation of the \<open>prepare_uninitialized_buffer\<close> override (C2), no
    uninitialised memory in \<open>read_buf\<close> (C3), byte-count bounds (C4), and that the
    forwarding overrides of \<open>read_buf\<close>/\<open>write_buf\<close> equal the trait defaults they
    replace (C5, C6). What a transport promises it keeps through \<open>StreamType\<close>: a
    specification it refines under a refinement mapping (\<open>refines\<close>, C7, runs as
    \<open>spec_trace\<close>), and a termination measure for \<open>read_to_end\<close>
    (\<open>read_measured_stream_type\<close>).
    The build without the \<open>tls\<close> feature is the same file with the
    \<open>cfg(feature = "tls")\<close> items removed: \<open>StreamTypeTcpOnly\<close>,
    \<open>from_tcp_only\<close> and \<open>tcp_only_impl\<close>. It is the \<open>Tcp\<close> variant of the full
    build under \<open>full_of\<close>, call for call (C14), and keeps the transport contracts of
    the socket it wraps (C15). The buffer contracts of \<open>read_buf\<close> and
    \<open>write_buf\<close> are forwarded (C17).
  \<^item> \<open>Tcp_Model\<close>: tokio-core's non-blocking \<open>TcpStream\<close>, modelled from the spec
    (it is not code of the repository): receive queue, end of stream, send buffer, shut
    down write half, pending error, wake-up registrations, and \<open>tcp_deliver\<close> for the
    network. It keeps every contract of the interface (\<open>tcp_read_contract\<close>,
    \<open>tcp_uninit_sound\<close>, \<open>tcp_read_buf_safe\<close>), which discharges the hypotheses of
    C2-C6 at a concrete transport, and its send buffer stays accounted for
    (\<open>tcp_keeps_accounted\<close>). Through \<open>StreamType\<close>: no missed wake-up (C10):
    \<open>NotReady\<close> registers the reader, delivery wakes it, the retry returns the bytes.
  \<^item> \<open>Tls_Record\<close>: the TLS record layer on the wire (\<open>encode_record\<close>,
    \<open>parse_record\<close>: content type, 16-bit big-endian length as two \<open>8 word\<close>
    bytes, payload sealed with the session key by \<open>XOR\<close>) and \<open>decode_stream\<close>, the
    plaintext of a whole stream of records, a \<open>function\<close> whose termination rests on
    every record consuming its header. Lemmas: decoding inverts encoding and distributes
    over concatenation.
  \<^item> \<open>Tls_Model\<close>: tokio-tls's \<open>TlsStream<TcpStream>\<close>, modelled from the spec:
    a session (\<open>tls_sock\<close>) over a \<open>tcp_sock\<close> whose records travel on the
    socket's byte stream. \<open>tls_read\<close> returns buffered plaintext, opens whole records, pulls
    from the socket, reports a malformed record as \<open>InvalidData\<close> and end of stream
    before a close notification as \<open>UnexpectedEof\<close> (a choice of the model: the spec
    does not say, and no claim depends on it); \<open>tls_write\<close> seals one
    fragment per record; \<open>tls_shutdown\<close> queues the close notification, then closes
    the write half. Lemmas: the session keeps every interface contract
    (\<open>tls_read_contract\<close>, \<open>tls_uninit_sound\<close>, \<open>tls_read_buf_safe\<close>) and its
    own invariant (\<open>tls_keeps_sound\<close>: send buffer accounted for, close notification
    marked sent only once the write half is closed), and close notification before close
    through \<open>StreamType\<close> (C12).
  \<^item> \<open>Connection\<close>: the components composed. A client \<open>StreamType\<close>, the network
    (\<open>st_deliver\<close>) and a server \<open>StreamType\<close> of the same variant, driven by
    \<open>conn_step\<close> (write and shutdown at the client, delivery, read at the server). The
    abstract specification is an ordered byte pipe with a closed flag
    (\<open>pipe_step\<close>): a read returns a prefix of the pipe, and 0 into a non-empty buffer
    only at end of stream. \<open>conn_abs\<close> maps a connection to the pipe (plain: received
    then unsent bytes; secure: buffered plaintext then the decoded records in flight) and
    \<open>conn_inv\<close> is the invariant under which each step refines a pipe step
    (\<open>conn_step_refines\<close>, one lemma per operation and variant, every branch of
    \<open>tls_read\<close> included). Claims: runs refine the pipe (C8) and the bytes read are
    the bytes written, in order (C9).
  \<^item> This theory: the spec's scenarios over both variants with \<open>tcp_impl\<close> and
    \<open>tls_impl\<close> as the transports: the loopback round trip on a plain and a secure
    \<open>StreamType\<close> (C11), and the witnesses of the claims, which discharge the contract
    hypotheses of C2-C7 with the lemmas of both transport models, and run the connection
    scenario \<open>conn_scenario\<close> (evaluated: "ping" read in two parts, then end of stream,
    then a failed write after shutdown) for C8-C9, the two-way scenario
    \<open>duplex_scenario\<close> (evaluated, the same outcomes on both variants) for C18, and
    concrete instances of C10, C12, C13 and C15-C17.
  \<^item> \<open>End_Of_Stream\<close>: reading a \<open>StreamType\<close> to its end. Both transports are
    measured (\<open>tcp_read_measured\<close>: the receive queue; \<open>tls_read_measured\<close>:
    \<open>tls_backlog\<close>, buffered plaintext plus records plus the receive queue) from states
    with no pending \<open>Interrupted\<close> error (\<open>no_eintr\<close>), so \<open>read_to_end\<close> on a
    \<open>StreamType\<close> returns (C13).
  \<^item> \<open>Wakeup\<close>: the wake-up discipline of the secure variant: \<open>read_buf\<close> on an idle
    \<open>StreamType::Tls\<close> answers \<open>NotReady\<close> and registers the reader, delivery of
    the peer's record wakes it, and the retried \<open>read_buf\<close> returns the record's
    plaintext (C16; C10 is the plain variant's).
  \<^item> \<open>Duplex\<close>: the connection used in both directions (\<open>side\<close> \<open>Up\<close>, client to
    server, and \<open>Down\<close>, server to client; \<open>duplex_step\<close> runs
    \<open>Connection.conn_step\<close> with the roles exchanged for \<open>Down\<close>). The
    specification is the product of two pipes (\<open>duplex_pipe_step\<close>), one per
    direction. \<open>conn_step_frame\<close> shows that an operation of one direction leaves the
    other direction's invariant and abstract pipe unchanged; C18 lifts both to runs and
    gives byte order per direction, so a half-closed connection still carries the other
    direction's bytes.

  \<^bold>\<open>Bounds and fuel.\<close> No loop of the code is unbounded: every method is one
  forwarding call, \<open>run_ops\<close> is structural recursion on the call list, and the socket
  model moves at most the bytes present; a TLS read pulls from the socket at most twice
  (the second pull only registers the wake-up or reports the socket's state), and
  \<open>decode_stream\<close> terminates by the length of the stream. The one loop that could
  run forever is std's \<open>read_to_end\<close> over the stream (a transport that keeps
  answering \<open>Interrupted\<close>, or produces bytes forever): it is a partial function, and
  C13 proves it returns whenever the chunk is non-empty and no \<open>Interrupted\<close> error is
  pending, by the measures above. No fuel is needed; byte counts are \<open>nat\<close>
  (Rust's \<open>usize\<close> cannot overflow here because every count is bounded by a buffer
  length, which C4 states).

  \<^bold>\<open>Not modelled.\<close> The \<open>Debug\<close> derive (formatting only). The TLS handshake
  and cryptography (the cipher is an invertible one-byte transformation; what is proved
  does not depend on its strength), records split across several socket writes (a record
  is written whole or the write would-blocks). Dropping a
  \<open>StreamType\<close> releases the socket exactly once by Rust's ownership, which HOL's
  values do not express. The protocol layer, connector and scheduler are not code of
  this repository; they appear only as call sequences and as the socket's wake-up flags.

  The map covers every item of the source except the \<open>use\<close> lines; nothing more of
  the repository's code remains to be modelled.

  \<^bold>\<open>Plan.\<close> (1) done: the interface, \<open>StreamType\<close>, the TCP model. (2) done:
  the TLS model, its record round trip, close notification before close, and the spec's
  scenarios over both variants. (3) done: the transfer of invariants and refinements
  through \<open>StreamType\<close>, the connection refined by the byte pipe (end of stream
  included), and byte-stream order over whole runs. (4) done: termination of
  \<open>read_to_end\<close> over both transports, the
  secure variant's wake-up over the network, and the build without the \<open>tls\<close>
  feature. (5) done: the connection in both directions with half-close, the buffer
  contracts of \<open>read_buf\<close>/\<open>write_buf\<close> through \<open>StreamType\<close>.
  What remains outside the development is library code (the reactor, OpenSSL, the
  handshake) and the protocol layer, which are not part of this repository.
\<close>

section \<open>The loopback scenario\<close>

text \<open>The bytes \<open>b"ping"\<close>.\<close>

definition ping :: "byte list" where
  "ping = [112, 105, 110, 103]"

text \<open>The spec's loopback scenario: the client writes, the network delivers, the server reads.\<close>

definition exchange ::
  "(tcp_sock, tls_sock) StreamType \<Rightarrow> (tcp_sock, tls_sock) StreamType \<Rightarrow> nat \<Rightarrow> byte list
   \<Rightarrow> nat io_result \<times> nat io_result \<times> byte list" where
  "exchange client server n data =
     (case st_write tcp_impl tls_impl client data of
        (w, client') \<Rightarrow>
          (case st_deliver client' server of
             (_, server', _) \<Rightarrow>
               (case st_read tcp_impl tls_impl server' (replicate n 0) of
                  (r, buf, _) \<Rightarrow> (w, r, take (res_count r) buf))))"

text \<open>
  The spec's call sequence for comparing the variants: write, flush, read_buf with
  nothing received, shutdown, and a write after shutdown.
\<close>

definition scenario_ops :: "io_op list" where
  "scenario_ops =
     [OpWrite ping, OpFlush, OpReadBuf \<lparr>bm_filled = [], bm_spare = replicate 4 0\<rparr>, OpShutdown, OpWrite ping]"

text \<open>A run of the connection: write, deliver, read part, shut down, deliver, read the rest, read at end of stream, write after shutdown.\<close>

definition conn_scenario :: "conn_op list" where
  "conn_scenario = [CWrite ping, CDeliver, CRead 2, CShutdown, CDeliver, CRead 8, CRead 8, CWrite ping]"

text \<open>
  The spec's exchange in both directions with a half-close: client and server each write,
  the network delivers both ways and both read; the client shuts down its write half,
  and the server still answers, which the client reads.
\<close>

definition duplex_scenario :: "(side \<times> conn_op) list" where
  "duplex_scenario =
     [(Up, CWrite ping), (Down, CWrite [111, 107]), (Up, CDeliver), (Down, CDeliver),
      (Up, CRead 8), (Down, CRead 8), (Up, CShutdown), (Up, CDeliver), (Up, CRead 8),
      (Down, CWrite ping), (Down, CDeliver), (Down, CRead 8)]"

section \<open>Claims that span components\<close>

text \<open>C11. Loopback scenario: writing a non-empty message of at most one record through a plain or a secure StreamType over a connected socket with room for it, delivering it, and reading at the peer with a large enough buffer yields exactly the message on both variants, with no error on either side.\<close>

theorem loopback_roundtrip:
  assumes "data \<noteq> []" and "length data \<le> max_fragment" and "length data + 3 \<le> room"
    and "length data \<le> n"
  shows "exchange (from_tcp (tcp_connected room)) (from_tcp (tcp_connected room)) n data
           = (Inr (length data), Inr (length data), data)
       \<and> exchange (from_tls (tls_connected room key)) (from_tls (tls_connected room key)) n data
           = (Inr (length data), Inr (length data), data)"
proof
  have "0 < room" using assms(3) by simp
  with assms show "exchange (from_tcp (tcp_connected room)) (from_tcp (tcp_connected room)) n data
           = (Inr (length data), Inr (length data), data)"
    by (simp add: exchange_def from_tcp_Tcp tcp_write_def tcp_write_ready_def
      tcp_connected_def tcp_deliver_def tcp_read_shape tcp_read_ready_def copy_prefix_def
      min_def Let_def)
next
  let ?enc = "encode_record key (AppData data)"
  let ?srv = "(tls_connected room key)\<lparr>tls_tcp := (tcp_connected room)\<lparr>rx_data := ?enc\<rparr>\<rparr>"
  have small: "length data < 65536" using assms(2) by (simp add: max_fragment_def)
  have w: "st_write tcp_impl tls_impl (from_tls (tls_connected room key)) data
      = (Inr (length data), from_tls ((tls_connected room key)\<lparr>tls_tcp := (tcp_connected room)\<lparr>
          tx_data := ?enc, tx_room := room - (length data + 3)\<rparr>\<rparr>))"
    using tls_write_fresh [OF assms(1,2,3)] by (simp add: from_tls_Tls)
  obtain c' where d: "st_deliver (from_tls ((tls_connected room key)\<lparr>tls_tcp := (tcp_connected room)\<lparr>
          tx_data := ?enc, tx_room := room - (length data + 3)\<rparr>\<rparr>)) (from_tls (tls_connected room key))
      = (c', from_tls ?srv, False)"
    by (simp add: from_tls_Tls tcp_deliver_def tls_connected_def tcp_connected_def del: encode_record.simps)
  have r: "fst (tls_read ?srv (replicate n 0)) = Inr (length data)
         \<and> take (length data) (fst (snd (tls_read ?srv (replicate n 0)))) = data"
    using tls_read_delivered [OF assms(1) small assms(4)] .
  obtain r0 b0 s0 where tr: "tls_read ?srv (replicate n 0) = (r0, b0, s0)"
    using prod_cases3 by blast
  have "exchange (from_tls (tls_connected room key)) (from_tls (tls_connected room key)) n data
      = (case st_read tcp_impl tls_impl (from_tls ?srv) (replicate n 0) of
           (r, buf, _) \<Rightarrow> (Inr (length data), r, take (res_count r) buf))"
    by (simp only: exchange_def w d prod.case)
  also have "\<dots> = (Inr (length data), Inr (length data), data)"
    using r tr by (simp add: from_tls_Tls del: encode_record.simps)
  finally show "exchange (from_tls (tls_connected room key)) (from_tls (tls_connected room key)) n data
           = (Inr (length data), Inr (length data), data)" .
qed

section \<open>Witnesses\<close>

theorem stream_type_uninit_sound_witness:
  "uninit_sound tcp_impl \<and> uninit_sound tls_impl \<and> uninit_sound (stream_type_impl tcp_impl tls_impl)"
  using tcp_uninit_sound tls_uninit_sound stream_type_uninit_sound [OF tcp_uninit_sound tls_uninit_sound]
  by simp

theorem stream_type_read_buf_safe_witness:
  "read_buf_safe tcp_impl \<and> read_buf_safe tls_impl \<and> read_buf_safe (stream_type_impl tcp_impl tls_impl)"
  using tcp_read_buf_safe tls_read_buf_safe stream_type_read_buf_safe [OF tcp_read_buf_safe tls_read_buf_safe]
  by simp

theorem stream_type_contracts_witness:
  "read_contract tcp_impl \<and> read_contract tls_impl \<and> write_contract tcp_impl \<and> write_contract tls_impl
   \<and> read_contract (stream_type_impl tcp_impl tls_impl) \<and> write_contract (stream_type_impl tcp_impl tls_impl)"
  using tcp_read_contract tls_read_contract tcp_write_contract tls_write_contract
    stream_type_contracts [OF tcp_read_contract tls_read_contract tcp_write_contract tls_write_contract]
  by simp

theorem st_read_buf_default_witness:
  "io_read_buf tcp_impl = read_buf_of tcp_impl \<and> io_read_buf tls_impl = read_buf_of tls_impl
   \<and> st_read_buf tcp_impl tls_impl (Tcp (tcp_connected 4)) \<lparr>bm_filled = [], bm_spare = [0, 0]\<rparr>
     = read_buf_of (stream_type_impl tcp_impl tls_impl) (Tcp (tcp_connected 4)) \<lparr>bm_filled = [], bm_spare = [0, 0]\<rparr>"
proof -
  have d: "io_read_buf tcp_impl = read_buf_of tcp_impl" by simp
  have d2: "io_read_buf tls_impl = read_buf_of tls_impl" by simp
  have e: "st_read_buf tcp_impl tls_impl (Tcp (tcp_connected 4)) \<lparr>bm_filled = [], bm_spare = [0, 0]\<rparr>
     = read_buf_of (stream_type_impl tcp_impl tls_impl) (Tcp (tcp_connected 4)) \<lparr>bm_filled = [], bm_spare = [0, 0]\<rparr>"
    by (rule st_read_buf_default [OF d d2])
  from d d2 e show ?thesis by blast
qed

theorem st_write_buf_default_witness:
  "io_write_buf tcp_impl = write_buf_of tcp_impl \<and> io_write_buf tls_impl = write_buf_of tls_impl
   \<and> st_write_buf tcp_impl tls_impl (Tcp (tcp_connected 4)) \<lparr>bc_data = ping, bc_pos = 1\<rparr>
     = write_buf_of (stream_type_impl tcp_impl tls_impl) (Tcp (tcp_connected 4)) \<lparr>bc_data = ping, bc_pos = 1\<rparr>"
proof -
  have d: "io_write_buf tcp_impl = write_buf_of tcp_impl" by simp
  have d2: "io_write_buf tls_impl = write_buf_of tls_impl" by simp
  have e: "st_write_buf tcp_impl tls_impl (Tcp (tcp_connected 4)) \<lparr>bc_data = ping, bc_pos = 1\<rparr>
     = write_buf_of (stream_type_impl tcp_impl tls_impl) (Tcp (tcp_connected 4)) \<lparr>bc_data = ping, bc_pos = 1\<rparr>"
    by (rule st_write_buf_default [OF d d2])
  from d d2 e show ?thesis by blast
qed

theorem tcp_no_missed_wakeup_witness:
  "sock_err (tcp_connected 8) = None \<and> rx_data (tcp_connected 8) = [] \<and> \<not> rx_eof (tcp_connected 8)
   \<and> tx_data ((tcp_connected 8)\<lparr>tx_data := ping\<rparr>) \<noteq> []
   \<and> has_remaining_mut \<lparr>bm_filled = [], bm_spare = replicate 8 0\<rparr>
   \<and> st_read_buf tcp_impl tls_impl (from_tcp (tcp_connected 8)) \<lparr>bm_filled = [], bm_spare = replicate 8 0\<rparr>
       = (Inr NotReady, \<lparr>bm_filled = [], bm_spare = replicate 8 0\<rparr>,
          from_tcp ((tcp_connected 8)\<lparr>read_waiter := True\<rparr>))
   \<and> fst (st_read_buf tcp_impl tls_impl (from_tcp ((tcp_connected 8)\<lparr>rx_data := ping\<rparr>))
             \<lparr>bm_filled = [], bm_spare = replicate 8 0\<rparr>) = Inr (Ready 4)"
proof -
  let ?a = "(tcp_connected 8)\<lparr>tx_data := ping\<rparr>"
  let ?b = "tcp_connected 8"
  let ?m = "\<lparr>bm_filled = [], bm_spare = replicate 8 (0 :: byte)\<rparr>"
  have h: "sock_err ?b = None" "rx_data ?b = []" "\<not> rx_eof ?b" "tx_data ?a \<noteq> []" "has_remaining_mut ?m"
    by (simp_all add: tcp_connected_def ping_def has_remaining_mut_def remaining_mut_def)
  have net: "tcp_deliver ?a (?b\<lparr>read_waiter := True\<rparr>)
     = (?a\<lparr>tx_data := [], tx_room := 12\<rparr>, ?b\<lparr>rx_data := ping\<rparr>, True)"
    by (simp add: tcp_deliver_def tcp_connected_def ping_def)
  note w = tcp_no_missed_wakeup [OF h net, of tls_impl]
  show ?thesis using h w
    by (simp add: ping_def tcp_connected_def remaining_mut_def)
qed

theorem loopback_roundtrip_witness:
  "ping \<noteq> [] \<and> length ping \<le> max_fragment \<and> length ping + 3 \<le> 64 \<and> length ping \<le> 16
   \<and> exchange (from_tcp (tcp_connected 64)) (from_tcp (tcp_connected 64)) 16 ping = (Inr 4, Inr 4, ping)
   \<and> exchange (from_tls (tls_connected 64 42)) (from_tls (tls_connected 64 42)) 16 ping = (Inr 4, Inr 4, ping)"
proof -
  have h: "ping \<noteq> []" "length ping \<le> max_fragment" "length ping + 3 \<le> 64" "length ping \<le> 16"
    by (simp_all add: ping_def max_fragment_def)
  show ?thesis using h loopback_roundtrip [OF h, of 42] by (simp add: ping_def)
qed

theorem st_shutdown_close_notify_witness:
  "\<not> tls_close_sent (tls_connected 64 42) \<and> \<not> wr_closed (tls_tcp (tls_connected 64 42))
   \<and> (\<exists>s'. snd (st_shutdown tcp_impl tls_impl (from_tls (tls_connected 64 42))) = from_tls s'
         \<and> wr_closed (tls_tcp s') \<and> tls_close_sent s' \<and> tx_data (tls_tcp s') = [21, 0, 2, 1, 0])
   \<and> fst (st_shutdown tcp_impl tls_impl (from_tls (tls_connected 64 42))) = Inr (Ready ())"
proof -
  obtain p st' where call: "st_shutdown tcp_impl tls_impl (from_tls (tls_connected 64 42)) = (p, st')"
    by (cases "st_shutdown tcp_impl tls_impl (from_tls (tls_connected 64 42))") blast
  have h: "\<not> tls_close_sent (tls_connected 64 42)" "\<not> wr_closed (tls_tcp (tls_connected 64 42))"
    by (simp_all add: tls_connected_def tcp_connected_def)
  note c = st_shutdown_close_notify [OF h call, of "tcp_connected 64"]
  have e: "sock_err (tls_tcp (tls_connected 64 42)) = None" "5 \<le> tx_room (tls_tcp (tls_connected 64 42))"
    "tx_data (tls_tcp (tls_connected 64 42)) = []"
    by (simp_all add: tls_connected_def tcp_connected_def)
  show ?thesis using c e h call by auto
qed

text \<open>
  The send buffer's accounting as a specification both transports refine: no call changes
  free room plus queued bytes.
\<close>

lemma send_buffer_refines:
  "refines tcp_impl (\<lambda>_. True) (\<lambda>t. tx_room t + length (tx_data t)) (\<lambda>a op out a'. a' = a)"
  "refines tls_impl (\<lambda>s. tls_close_sent s \<longrightarrow> wr_closed (tls_tcp s))
     (\<lambda>s. tx_room (tls_tcp s) + length (tx_data (tls_tcp s))) (\<lambda>a op out a'. a' = a)"
proof -
  have t: "tx_accounted (tx_room s + length (tx_data s)) (snd (exec_op tcp_impl s op))" for s op
    using tcp_keeps_accounted unfolding keeps_def by (simp add: tx_accounted_def)
  show "refines tcp_impl (\<lambda>_. True) (\<lambda>t. tx_room t + length (tx_data t)) (\<lambda>a op out a'. a' = a)"
    using t by (simp add: refines_def keeps_def tx_accounted_def)
  have u: "tls_sound (tx_room (tls_tcp s) + length (tx_data (tls_tcp s))) (snd (exec_op tls_impl s op))"
    if "tls_close_sent s \<longrightarrow> wr_closed (tls_tcp s)" for s op
    using tls_keeps_sound that unfolding keeps_def by (simp add: tls_sound_def tx_accounted_def)
  show "refines tls_impl (\<lambda>s. tls_close_sent s \<longrightarrow> wr_closed (tls_tcp s))
     (\<lambda>s. tx_room (tls_tcp s) + length (tx_data (tls_tcp s))) (\<lambda>a op out a'. a' = a)"
    using u by (simp add: refines_def keeps_def tls_sound_def tx_accounted_def)
qed

theorem stream_type_refines_witness:
  "refines tcp_impl (\<lambda>_. True) (\<lambda>t. tx_room t + length (tx_data t)) (\<lambda>a op out a'. a' = a)
   \<and> refines tls_impl (\<lambda>s. tls_close_sent s \<longrightarrow> wr_closed (tls_tcp s))
       (\<lambda>s. tx_room (tls_tcp s) + length (tx_data (tls_tcp s))) (\<lambda>a op out a'. a' = a)
   \<and> st_lift (\<lambda>_. True) (\<lambda>s. tls_close_sent s \<longrightarrow> wr_closed (tls_tcp s))
       (from_tls (tls_connected 64 42) :: (tcp_sock, tls_sock) StreamType)
   \<and> (case run_ops (stream_type_impl tcp_impl tls_impl) (from_tls (tls_connected 64 42)) scenario_ops of
        (outs, st') \<Rightarrow>
          spec_trace (\<lambda>a op out a'. a' = a)
            (st_lift (\<lambda>t :: tcp_sock. tx_room t + length (tx_data t)) (\<lambda>s :: tls_sock. tx_room (tls_tcp s) + length (tx_data (tls_tcp s)))
               (from_tls (tls_connected 64 42)))
            scenario_ops outs
            (st_lift (\<lambda>t :: tcp_sock. tx_room t + length (tx_data t)) (\<lambda>s :: tls_sock. tx_room (tls_tcp s) + length (tx_data (tls_tcp s))) st'))"
proof -
  obtain outs st' where call: "run_ops (stream_type_impl tcp_impl tls_impl) (from_tls (tls_connected 64 42)) scenario_ops = (outs, st')"
    by (cases "run_ops (stream_type_impl tcp_impl tls_impl) (from_tls (tls_connected 64 42)) scenario_ops")
  have h: "st_lift (\<lambda>_. True) (\<lambda>s. tls_close_sent s \<longrightarrow> wr_closed (tls_tcp s))
       (from_tls (tls_connected 64 42) :: (tcp_sock, tls_sock) StreamType)"
    by (simp add: from_tls_Tls tls_connected_def)
  note c = conjunct2 [OF stream_type_refines [OF send_buffer_refines h call]]
  show ?thesis
    unfolding call prod.case using c send_buffer_refines h by blast
qed

theorem conn_run_refines_witness:
  "conn_inv (conn_secure 64 42)
   \<and> (case conn_run conn_scenario (conn_secure 64 42) of
        (outs, cs') \<Rightarrow> conn_inv cs' \<and> pipe_steps (conn_abs (conn_secure 64 42)) conn_scenario outs (conn_abs cs'))"
proof -
  obtain outs cs' where call: "conn_run conn_scenario (conn_secure 64 42) = (outs, cs')"
    by (cases "conn_run conn_scenario (conn_secure 64 42)")
  have inv: "conn_inv (conn_secure 64 42)" using conn_start by blast
  show ?thesis using conn_run_refines [OF inv call] inv call by simp
qed

lemma conn_scenario_outcomes:
  "fst (conn_run conn_scenario (conn_secure 64 42)) =
     [OWrote (Inr 4), ODelivered, OGot (Inr 2) [112, 105], OShut (Inr (Ready ())), ODelivered,
      OGot (Inr 2) [110, 103], OGot (Inr 0) [], OWrote (Inl BrokenPipe)]"
  by code_simp

theorem conn_stream_order_witness:
  "conn_inv (conn_secure 64 42) \<and> p_bytes (conn_abs (conn_secure 64 42)) = []
   \<and> got (fst (conn_run conn_scenario (conn_secure 64 42)))
       @ p_bytes (conn_abs (snd (conn_run conn_scenario (conn_secure 64 42))))
     = sent conn_scenario (fst (conn_run conn_scenario (conn_secure 64 42)))
   \<and> got (fst (conn_run conn_scenario (conn_secure 64 42))) = ping"
proof -
  obtain outs cs' where call: "conn_run conn_scenario (conn_secure 64 42) = (outs, cs')"
    by (cases "conn_run conn_scenario (conn_secure 64 42)")
  have inv: "conn_inv (conn_secure 64 42)" "p_bytes (conn_abs (conn_secure 64 42)) = []"
    using conn_start by blast+
  have g: "got (fst (conn_run conn_scenario (conn_secure 64 42))) = ping"
    by (simp add: conn_scenario_outcomes ping_def)
  show ?thesis using conn_stream_order [OF inv(1) call] inv call g by simp
qed

theorem st_read_to_end_terminates_witness:
  "st_lift no_eintr (\<lambda>s. no_eintr (tls_tcp s))
     (from_tls ((tls_connected 64 42)\<lparr>tls_tcp := (tcp_connected 64)\<lparr>
        rx_data := encode_record 42 (AppData ping) @ encode_record 42 CloseNotify, rx_eof := True\<rparr>\<rparr>)
      :: (tcp_sock, tls_sock) StreamType)
   \<and> (0 :: nat) < 8
   \<and> (\<exists>r. read_to_end (stream_type_impl tcp_impl tls_impl) 8
        (from_tls ((tls_connected 64 42)\<lparr>tls_tcp := (tcp_connected 64)\<lparr>
           rx_data := encode_record 42 (AppData ping) @ encode_record 42 CloseNotify, rx_eof := True\<rparr>\<rparr>)) [] = Some r)"
proof -
  have h: "st_lift no_eintr (\<lambda>s. no_eintr (tls_tcp s))
     (from_tls ((tls_connected 64 42)\<lparr>tls_tcp := (tcp_connected 64)\<lparr>
        rx_data := encode_record 42 (AppData ping) @ encode_record 42 CloseNotify, rx_eof := True\<rparr>\<rparr>)
      :: (tcp_sock, tls_sock) StreamType)"
    by (simp add: from_tls_Tls no_eintr_def tcp_connected_def del: encode_record.simps)
  show ?thesis using h st_read_to_end_terminates [OF h, of 8 "[]"] by simp
qed

theorem tcp_only_contracts_witness:
  "uninit_sound tcp_impl \<and> read_buf_safe tcp_impl \<and> read_contract tcp_impl \<and> write_contract tcp_impl
   \<and> uninit_sound (tcp_only_impl tcp_impl) \<and> read_buf_safe (tcp_only_impl tcp_impl)
   \<and> read_contract (tcp_only_impl tcp_impl) \<and> write_contract (tcp_only_impl tcp_impl)"
  using tcp_uninit_sound tcp_read_buf_safe tcp_read_contract tcp_write_contract
    tcp_only_contracts [OF tcp_uninit_sound tcp_read_buf_safe tcp_read_contract tcp_write_contract]
  by simp

theorem st_read_buf_tls_no_missed_wakeup_witness:
  "\<exists>p1 m1 st1 c' st2 wake.
     st_read_buf tcp_impl tls_impl (from_tls (tls_connected 64 42)) \<lparr>bm_filled = [], bm_spare = replicate 8 0\<rparr>
       = (p1, m1, st1)
   \<and> st_deliver (from_tls ((tls_connected 64 42)\<lparr>tls_tcp := (tcp_connected 64)\<lparr>
        tx_data := encode_record 42 (AppData ping)\<rparr>\<rparr>)) st1 = (c', st2, wake)
   \<and> p1 = Inr NotReady \<and> bm_filled m1 = [] \<and> wake
   \<and> fst (st_read_buf tcp_impl tls_impl st2 \<lparr>bm_filled = [], bm_spare = replicate 8 0\<rparr>) = Inr (Ready 4)
   \<and> bm_filled (fst (snd (st_read_buf tcp_impl tls_impl st2 \<lparr>bm_filled = [], bm_spare = replicate 8 0\<rparr>))) = ping"
proof -
  let ?s = "tls_connected 64 42"
  let ?c = "(tls_connected 64 42)\<lparr>tls_tcp := (tcp_connected 64)\<lparr>tx_data := encode_record 42 (AppData ping)\<rparr>\<rparr>"
  let ?m = "\<lparr>bm_filled = [], bm_spare = replicate 8 (0 :: byte)\<rparr>"
  obtain p1 m1 st1 where first: "st_read_buf tcp_impl tls_impl (from_tls ?s) ?m = (p1, m1, st1)"
    by (cases "st_read_buf tcp_impl tls_impl (from_tls ?s) ?m")
  obtain c' st2 wake where net: "st_deliver (from_tls ?c) st1 = (c', st2, wake)"
    by (cases "st_deliver (from_tls ?c) st1")
  have h: "tls_plain ?s = []" "tls_cipher ?s = []" "\<not> tls_peer_closed ?s" "sock_err (tls_tcp ?s) = None"
    "rx_data (tls_tcp ?s) = []" "\<not> rx_eof (tls_tcp ?s)" "tls_key ?c = tls_key ?s"
    "tx_data (tls_tcp ?c) = encode_record (tls_key ?c) (AppData ping)" "ping \<noteq> []" "length ping < 65536"
    "has_remaining_mut ?m"
    by (simp_all add: tls_connected_def tcp_connected_def ping_def has_remaining_mut_def remaining_mut_def
        del: encode_record.simps)
  have w: "p1 = Inr NotReady \<and> bm_filled m1 = [] \<and> wake
       \<and> fst (st_read_buf tcp_impl tls_impl st2 ?m) = Inr (Ready 4)
       \<and> bm_filled (fst (snd (st_read_buf tcp_impl tls_impl st2 ?m))) = ping"
    using st_read_buf_tls_no_missed_wakeup [OF h first net] by (simp add: ping_def remaining_mut_def)
  show ?thesis using first net w by blast
qed

theorem stream_type_buf_contracts_witness:
  "read_buf_contract tcp_impl \<and> read_buf_contract tls_impl \<and> write_buf_contract tcp_impl \<and> write_buf_contract tls_impl
   \<and> read_buf_contract (stream_type_impl tcp_impl tls_impl) \<and> write_buf_contract (stream_type_impl tcp_impl tls_impl)"
  using tcp_buf_contracts tls_buf_contracts
    stream_type_buf_contracts [OF conjunct1 [OF tcp_buf_contracts] conjunct1 [OF tls_buf_contracts]
      conjunct2 [OF tcp_buf_contracts] conjunct2 [OF tls_buf_contracts]]
  by simp

text \<open>The two-way scenario, evaluated: both variants give the same outcomes; after the client's shutdown the server's reply still arrives.\<close>

lemma duplex_scenario_outcomes:
  "fst (duplex_run duplex_scenario (conn_secure 64 42)) =
     [OWrote (Inr 4), OWrote (Inr 2), ODelivered, ODelivered, OGot (Inr 4) ping, OGot (Inr 2) [111, 107],
      OShut (Inr (Ready ())), ODelivered, OGot (Inr 0) [], OWrote (Inr 4), ODelivered, OGot (Inr 4) ping]
   \<and> fst (duplex_run duplex_scenario (conn_plain 64)) = fst (duplex_run duplex_scenario (conn_secure 64 42))"
  by code_simp

theorem duplex_run_refines_witness:
  "duplex_inv (conn_secure 64 42)
   \<and> (case duplex_run duplex_scenario (conn_secure 64 42) of
        (outs, cs') \<Rightarrow> duplex_inv cs'
          \<and> duplex_pipe_steps (duplex_abs (conn_secure 64 42)) duplex_scenario outs (duplex_abs cs')
          \<and> got (snd (side_ops Down duplex_scenario outs)) @ p_bytes (side_pipe Down (duplex_abs cs'))
              = sent (fst (side_ops Down duplex_scenario outs)) (snd (side_ops Down duplex_scenario outs)))"
proof -
  obtain outs cs' where call: "duplex_run duplex_scenario (conn_secure 64 42) = (outs, cs')"
    by (cases "duplex_run duplex_scenario (conn_secure 64 42)")
  have inv: "duplex_inv (conn_secure 64 42)" using duplex_start by blast
  have e: "p_bytes (side_pipe Down (duplex_abs (conn_secure 64 42))) = []"
    by (simp add: conn_secure_def from_tls_Tls tls_connected_def tcp_connected_def srv_bytes_def)
  note r = duplex_run_refines [OF inv call]
  obtain dops douts where sd: "side_ops Down duplex_scenario outs = (dops, douts)"
    by (cases "side_ops Down duplex_scenario outs")
  show ?thesis using r inv call e sd by simp
qed

end
